theory Spec2Isabelle
  imports Complex_Main "HOL-Library.Word" "HOL-Library.Sublist"
begin

section \<open>Receipt processor: the points engine of \<open>internal/receipt/processor.go\<close>\<close>

text \<open>
  The development embeds \<open>calculatePoints\<close> and the helpers it calls. Go strings are byte
  sequences, so a string is a \<open>char list\<close> (one \<open>char\<close> per byte) and \<open>len\<close> is
  \<open>length\<close>. The standard-library functions the program calls (\<open>strconv.ParseFloat\<close>,
  \<open>time.Parse\<close>, \<open>strings.TrimSpace\<close>, \<open>strings.HasSuffix\<close>, \<open>regexp\<close>, \<open>math.Mod\<close>,
  \<open>math.Ceil\<close>) are modelled from their documented behaviour.
\<close>

subsection \<open>Bytes\<close>

definition byte :: "char \<Rightarrow> int" where
  "byte c = of_char c"

definition isDigit :: "char \<Rightarrow> bool" where
  "isDigit c = (48 \<le> byte c \<and> byte c \<le> 57)"

definition digitVal :: "char \<Rightarrow> int" where
  "digitVal c = byte c - 48"

text \<open>\<open>lower(c) = c | ('x' - 'X')\<close> of package \<open>strconv\<close>: sets bit 5.\<close>

definition lower :: "char \<Rightarrow> int" where
  "lower c = (if (byte c div 32) mod 2 = 0 then byte c + 32 else byte c)"

text \<open>ASCII lower-casing of \<open>commonPrefixLenIgnoreCase\<close>: only \<open>'A'..'Z'\<close> are changed.\<close>

definition foldCase :: "char \<Rightarrow> int" where
  "foldCase c = (if 65 \<le> byte c \<and> byte c \<le> 90 then byte c + 32 else byte c)"

subsection \<open>IEEE 754 binary64 values\<close>

text \<open>
  \<open>Finite m e\<close> is the double of value \<open>m * 2 ^ e\<close>. The representation is not
  normalised and the sign of zero is not kept: the program only multiplies, takes
  \<open>math.Ceil\<close> and \<open>math.Mod\<close>, compares with zero and converts to \<open>int64\<close>, and none of
  these tells \<open>-0\<close> from \<open>+0\<close>.
\<close>

datatype float64 = Finite int int | PosInf | NegInf | NaN

fun valof :: "float64 \<Rightarrow> rat" where
  "valof (Finite m e) = of_int m * 2 powi e"
| "valof _ = 0"

fun isFinite :: "float64 \<Rightarrow> bool" where
  "isFinite (Finite m e) = True"
| "isFinite _ = False"

text \<open>The number of binary digits of a positive integer.\<close>

function bitlen :: "int \<Rightarrow> int" where
  "bitlen n = (if n \<le> 0 then 0 else 1 + bitlen (n div 2))"
  by pat_completeness auto
termination
  by (relation "measure nat") auto

declare bitlen.simps [simp del]

text \<open>\<open>pow2 k\<close> is \<open>2 ^ k\<close> for \<open>k \<ge> 0\<close> and \<open>1\<close> for negative \<open>k\<close>.\<close>

definition pow2 :: "int \<Rightarrow> int" where
  "pow2 k = 2 ^ nat k"

text \<open>The integer nearest to \<open>num / den\<close>, ties to the even one.\<close>

definition roundHalfEven :: "int \<Rightarrow> int \<Rightarrow> int" where
  "roundHalfEven num den =
     (let q = num div den; r = num mod den
      in if 2 * r < den then q
         else if den < 2 * r then q + 1
         else if even q then q else q + 1)"

text \<open>
  \<open>floorLog2 n d\<close> is the exponent \<open>e\<close> with \<open>2 ^ e \<le> n / d < 2 ^ (e + 1)\<close>, for positive
  \<open>n\<close> and \<open>d\<close>: the difference of the bit lengths, or one less.
\<close>

definition floorLog2 :: "int \<Rightarrow> int \<Rightarrow> int" where
  "floorLog2 n d =
     (let e0 = bitlen n - bitlen d
      in if d * pow2 e0 \<le> n * pow2 (- e0) then e0 else e0 - 1)"

text \<open>
  \<open>round64 neg n d\<close> is the double nearest to \<open>\<plusminus> n / d\<close> (\<open>n \<ge> 0\<close>, \<open>d > 0\<close>) under
  IEEE 754 round-to-nearest-even: 53 significant bits, least exponent \<open>-1074\<close>
  (subnormals), and an infinity when the rounded magnitude reaches \<open>2 ^ 1024\<close>.
\<close>

definition round64 :: "bool \<Rightarrow> int \<Rightarrow> int \<Rightarrow> float64" where
  "round64 neg n d =
     (if n \<le> 0 then Finite 0 0
      else
        let s = max (floorLog2 n d) (- 1022) - 52;
            m = roundHalfEven (n * pow2 (- s)) (d * pow2 s)
        in if 0 \<le> s \<and> 2 ^ 1024 \<le> m * pow2 s
           then (if neg then NegInf else PosInf)
           else Finite (if neg then - m else m) s)"

text \<open>The product of two doubles, rounded once.\<close>

fun mul64 :: "float64 \<Rightarrow> float64 \<Rightarrow> float64" where
  "mul64 (Finite m1 e1) (Finite m2 e2) =
     round64 (m1 * m2 < 0) (\<bar>m1 * m2\<bar> * pow2 (e1 + e2)) (pow2 (- (e1 + e2)))"
| "mul64 NaN _ = NaN"
| "mul64 _ NaN = NaN"
| "mul64 (Finite m e) PosInf = (if m = 0 then NaN else if m < 0 then NegInf else PosInf)"
| "mul64 (Finite m e) NegInf = (if m = 0 then NaN else if m < 0 then PosInf else NegInf)"
| "mul64 PosInf (Finite m e) = (if m = 0 then NaN else if m < 0 then NegInf else PosInf)"
| "mul64 NegInf (Finite m e) = (if m = 0 then NaN else if m < 0 then PosInf else NegInf)"
| "mul64 PosInf PosInf = PosInf"
| "mul64 PosInf NegInf = NegInf"
| "mul64 NegInf PosInf = NegInf"
| "mul64 NegInf NegInf = PosInf"

text \<open>\<open>math.Ceil\<close>: the least integer not below the argument; infinities and NaN are kept.\<close>

fun Ceil :: "float64 \<Rightarrow> float64" where
  "Ceil (Finite m e) = Finite (if 0 \<le> e then m * pow2 e else - ((- m) div pow2 (- e))) 0"
| "Ceil x = x"

text \<open>
  \<open>math.Mod(x, y)\<close>: the remainder of \<open>x / y\<close> with the sign of \<open>x\<close> and magnitude below
  \<open>|y|\<close>, computed exactly. Special cases as documented: \<open>Mod(\<plusminus>Inf, y) = NaN\<close>,
  \<open>Mod(NaN, y) = NaN\<close>, \<open>Mod(x, 0) = NaN\<close>, \<open>Mod(x, \<plusminus>Inf) = x\<close>, \<open>Mod(x, NaN) = NaN\<close>.
\<close>

fun Mod :: "float64 \<Rightarrow> float64 \<Rightarrow> float64" where
  "Mod (Finite m1 e1) (Finite m2 e2) =
     (if m2 = 0 then NaN
      else
        let e = min e1 e2;
            a = m1 * pow2 (e1 - e);
            b = m2 * pow2 (e2 - e)
        in Finite (sgn a * (\<bar>a\<bar> mod \<bar>b\<bar>)) e)"
| "Mod (Finite m e) PosInf = Finite m e"
| "Mod (Finite m e) NegInf = Finite m e"
| "Mod _ _ = NaN"

text \<open>The comparison \<open>x == 0\<close> on doubles.\<close>

fun isZero :: "float64 \<Rightarrow> bool" where
  "isZero (Finite m e) = (m = 0)"
| "isZero _ = False"

text \<open>
  The conversion \<open>int64(x)\<close>: the fraction is discarded (truncation towards zero). When
  the truncated value does not fit in \<open>int64\<close>, or \<open>x\<close> is an infinity or NaN, the Go
  specification leaves the result implementation-dependent; \<open>oor\<close> is that result.
\<close>

type_synonym int64 = "64 word"

fun truncInt :: "float64 \<Rightarrow> int" where
  "truncInt (Finite m e) = sgn m * (if 0 \<le> e then \<bar>m\<bar> * pow2 e else \<bar>m\<bar> div pow2 (- e))"
| "truncInt _ = 0"

definition inInt64 :: "float64 \<Rightarrow> bool" where
  "inInt64 x = (isFinite x \<and> - (2 ^ 63) \<le> truncInt x \<and> truncInt x < 2 ^ 63)"

definition toInt64 :: "(float64 \<Rightarrow> int64) \<Rightarrow> float64 \<Rightarrow> int64" where
  "toInt64 oor x = (if inInt64 x then word_of_int (truncInt x) else oor x)"

text \<open>The constants \<open>0.2\<close> and \<open>0.25\<close> of the program, as doubles.\<close>

definition const_0_2 :: float64 where
  "const_0_2 = round64 False 2 10"

definition const_0_25 :: float64 where
  "const_0_25 = Finite 1 (- 2)"

subsection \<open>\<open>strconv.ParseFloat(s, 64)\<close>\<close>

text \<open>
  The two errors of \<open>strconv\<close>: \<open>ErrSyntax\<close> (the text is not a number) and \<open>ErrRange\<close>
  (a well-formed number too large for a double).
\<close>

datatype numError = ErrSyntax | ErrRange

text \<open>\<open>commonPrefixLenIgnoreCase(s, prefix)\<close>, for a lower-case \<open>prefix\<close>.\<close>

fun commonPrefixLenIgnoreCase :: "string \<Rightarrow> string \<Rightarrow> nat" where
  "commonPrefixLenIgnoreCase (c # s) (p # ps) =
     (if foldCase c = byte p then Suc (commonPrefixLenIgnoreCase s ps) else 0)"
| "commonPrefixLenIgnoreCase _ _ = 0"

definition infPrefix :: "string \<Rightarrow> nat option" where
  "infPrefix s =
     (let n = commonPrefixLenIgnoreCase s ''infinity'';
          n' = (if 3 < n \<and> n < 8 then 3 else n)
      in if n' = 3 \<or> n' = 8 then Some n' else None)"

text \<open>
  \<open>special\<close>: the texts \<open>inf\<close>, \<open>infinity\<close> (with an optional sign) and \<open>nan\<close> (without),
  in any letter case. The result is the value and the number of bytes consumed.
\<close>

definition special :: "string \<Rightarrow> (float64 \<times> nat) option" where
  "special s =
     (case s of
        [] \<Rightarrow> None
      | c # r \<Rightarrow>
          if c = CHR ''+'' then map_option (\<lambda>n. (PosInf, 1 + n)) (infPrefix r)
          else if c = CHR ''-'' then map_option (\<lambda>n. (NegInf, 1 + n)) (infPrefix r)
          else if c = CHR ''i'' \<or> c = CHR ''I'' then map_option (\<lambda>n. (PosInf, n)) (infPrefix s)
          else if c = CHR ''n'' \<or> c = CHR ''N'' then
            (if commonPrefixLenIgnoreCase s ''nan'' = 3 then Some (NaN, 3) else None)
          else None)"

text \<open>
  \<open>underscoreOK\<close>: an underscore may only stand between digits, or between a base prefix
  and a digit. \<open>saw\<close> is the kind of the last byte seen.
\<close>

datatype saw = SawBegin | SawDigit | SawUnderscore | SawOther

fun underscoreLoop :: "bool \<Rightarrow> saw \<Rightarrow> string \<Rightarrow> bool" where
  "underscoreLoop hex sw [] = (sw \<noteq> SawUnderscore)"
| "underscoreLoop hex sw (c # cs) =
     (if isDigit c \<or> (hex \<and> 97 \<le> lower c \<and> lower c \<le> 102) then underscoreLoop hex SawDigit cs
      else if c = CHR ''_'' then (if sw \<noteq> SawDigit then False else underscoreLoop hex SawUnderscore cs)
      else if sw = SawUnderscore then False
      else underscoreLoop hex SawOther cs)"

definition underscoreOK :: "string \<Rightarrow> bool" where
  "underscoreOK s0 =
     (let s = (case s0 of c # r \<Rightarrow> if c = CHR ''-'' \<or> c = CHR ''+'' then r else s0 | [] \<Rightarrow> s0)
      in case s of
           c0 # c1 # r \<Rightarrow>
             if c0 = CHR ''0'' \<and> (lower c1 = 98 \<or> lower c1 = 111 \<or> lower c1 = 120)
             then underscoreLoop (lower c1 = 120) SawDigit r
             else underscoreLoop False SawBegin s
         | _ \<Rightarrow> underscoreLoop False SawBegin s)"

text \<open>
  The mantissa loop of \<open>readFloat\<close>: digits (hexadecimal ones when \<open>hex\<close>), underscores and
  at most one point. It returns the digits read as an integer, the number of digits after
  the point, whether a digit was seen, and the rest of the text.
\<close>

fun mantissaLoop :: "bool \<Rightarrow> bool \<Rightarrow> bool \<Rightarrow> int \<Rightarrow> int \<Rightarrow> string \<Rightarrow> int \<times> int \<times> bool \<times> string" where
  "mantissaLoop hex sawdot sawdigits acc ndfrac [] = (acc, ndfrac, sawdigits, [])"
| "mantissaLoop hex sawdot sawdigits acc ndfrac (c # cs) =
     (if c = CHR ''_'' then mantissaLoop hex sawdot sawdigits acc ndfrac cs
      else if c = CHR ''.'' then
        (if sawdot then (acc, ndfrac, sawdigits, c # cs)
         else mantissaLoop hex True sawdigits acc ndfrac cs)
      else if isDigit c then
        mantissaLoop hex sawdot True
          (acc * (if hex then 16 else 10) + digitVal c) (if sawdot then ndfrac + 1 else ndfrac) cs
      else if hex \<and> 97 \<le> lower c \<and> lower c \<le> 102 then
        mantissaLoop hex sawdot True (acc * 16 + (lower c - 97 + 10)) (if sawdot then ndfrac + 1 else ndfrac) cs
      else (acc, ndfrac, sawdigits, c # cs))"

text \<open>The exponent digits: the accumulated exponent stops growing once it reaches 10000.\<close>

fun exponentLoop :: "int \<Rightarrow> string \<Rightarrow> int \<times> string" where
  "exponentLoop e [] = (e, [])"
| "exponentLoop e (c # cs) =
     (if c = CHR ''_'' then exponentLoop e cs
      else if isDigit c then exponentLoop (if e < 10000 then e * 10 + digitVal c else e) cs
      else (e, c # cs))"

text \<open>
  The optional exponent part (mandatory for a hexadecimal mantissa): \<open>None\<close> when it is
  malformed, otherwise the signed exponent and the rest of the text.
\<close>

definition exponentPart :: "bool \<Rightarrow> string \<Rightarrow> (int \<times> string) option" where
  "exponentPart hex s =
     (case s of
        [] \<Rightarrow> if hex then None else Some (0, [])
      | c # r \<Rightarrow>
          if lower c = (if hex then 112 else 101) then
            (case r of
               [] \<Rightarrow> None
             | d # r' \<Rightarrow>
                 let esign = (if d = CHR ''-'' then - 1 else 1);
                     r1 = (if d = CHR ''+'' \<or> d = CHR ''-'' then r' else r)
                 in (case r1 of
                       [] \<Rightarrow> None
                     | d1 # _ \<Rightarrow>
                         if isDigit d1
                         then (let (e, rest) = exponentLoop 0 r1 in Some (esign * e, rest))
                         else None))
          else if hex then None
          else Some (0, s))"

text \<open>
  The exact value \<open>mant * b ^ x\<close> of a literal as a fraction \<open>n / d\<close> of integers, where
  the base \<open>b\<close> of the exponent is 2 for a hexadecimal literal and 10 otherwise.
\<close>

definition literalFraction :: "bool \<Rightarrow> int \<Rightarrow> int \<Rightarrow> int \<times> int" where
  "literalFraction hex mant x =
     (let b = (if hex then 2 else 10) in (mant * b ^ nat x, b ^ nat (- x)))"

text \<open>
  The second half of \<open>readFloat\<close>, after the mantissa loop has returned \<open>ml\<close>: the
  exponent, the check of the underscores in the consumed prefix, and the value.
\<close>

definition readFloatTail ::
  "string \<Rightarrow> bool \<Rightarrow> bool \<Rightarrow> int \<times> int \<times> bool \<times> string \<Rightarrow> (bool \<times> int \<times> int \<times> nat) option" where
  "readFloatTail s neg hex ml =
     (case ml of
        (mant, ndfrac, sawdigits, s3) \<Rightarrow>
          if \<not> sawdigits then None
          else
            (case exponentPart hex s3 of
               None \<Rightarrow> None
             | Some (e, s4) \<Rightarrow>
                 let consumed = length s - length s4;
                     x = (if hex then e - 4 * ndfrac else e - ndfrac)
                 in if CHR ''_'' \<in> set (take consumed s) \<and> \<not> underscoreOK (take consumed s)
                    then None
                    else Some (neg, fst (literalFraction hex mant x),
                               snd (literalFraction hex mant x), consumed)))"

text \<open>
  \<open>readFloat\<close>: the longest prefix of \<open>s\<close> that is a floating-point literal. The result is
  the sign, the exact value of the literal as a fraction \<open>n / d\<close>, and the number of bytes
  consumed; \<open>None\<close> when no literal starts the text.
\<close>

definition readFloat :: "string \<Rightarrow> (bool \<times> int \<times> int \<times> nat) option" where
  "readFloat s =
     (case s of
        [] \<Rightarrow> None
      | c # r \<Rightarrow>
          let neg = (c = CHR ''-'');
              s1 = (if c = CHR ''+'' \<or> c = CHR ''-'' then r else s);
              hex = (case s1 of c0 # c1 # _ # _ \<Rightarrow> c0 = CHR ''0'' \<and> lower c1 = 120 | _ \<Rightarrow> False);
              s2 = (if hex then drop 2 s1 else s1)
          in readFloatTail s neg hex (mantissaLoop hex False False 0 0 s2))"

text \<open>
  \<open>ParseFloat\<close> needs the whole text to be the literal, and returns the nearest double.
  A syntax error returns 0 with \<open>ErrSyntax\<close>; a literal beyond the largest double returns
  an infinity with \<open>ErrRange\<close>.
\<close>

definition ParseFloat :: "string \<Rightarrow> float64 \<times> numError option" where
  "ParseFloat s =
     (case special s of
        Some (v, n) \<Rightarrow> if n = length s then (v, None) else (Finite 0 0, Some ErrSyntax)
      | None \<Rightarrow>
          (case readFloat s of
             None \<Rightarrow> (Finite 0 0, Some ErrSyntax)
           | Some (neg, n, d, consumed) \<Rightarrow>
               if consumed \<noteq> length s then (Finite 0 0, Some ErrSyntax)
               else
                 let f = round64 neg n d
                 in (f, if isFinite f then None else Some ErrRange)))"

text \<open>
  The exact value of a text that \<open>ParseFloat\<close> reads as a literal, before any rounding:
  the sign and the fraction \<open>n / d\<close> that \<open>readFloat\<close> returns when it consumes the whole
  text; \<open>None\<close> for the special texts (infinities, NaN) and for a syntax error.
\<close>

definition exactLiteral :: "string \<Rightarrow> (bool \<times> int \<times> int) option" where
  "exactLiteral s =
     (case special s of
        Some (v, k) \<Rightarrow> None
      | None \<Rightarrow>
          (case readFloat s of
             None \<Rightarrow> None
           | Some (neg, n, d, consumed) \<Rightarrow>
               if consumed \<noteq> length s then None else Some (neg, n, d)))"

subsection \<open>\<open>time.Parse\<close> for the two layouts of the program\<close>

text \<open>
  \<open>getnum(s, fixed)\<close> of package \<open>time\<close>: a number of one or two digits, of exactly two
  when \<open>fixed\<close>. The result is the number and the rest of the text.
\<close>

definition getnum :: "string \<Rightarrow> bool \<Rightarrow> (int \<times> string) option" where
  "getnum s fixed =
     (case s of
        [] \<Rightarrow> None
      | c0 # r \<Rightarrow>
          if \<not> isDigit c0 then None
          else
            (case r of
               [] \<Rightarrow> if fixed then None else Some (digitVal c0, r)
             | c1 # r' \<Rightarrow>
                 if \<not> isDigit c1 then (if fixed then None else Some (digitVal c0, r))
                 else Some (digitVal c0 * 10 + digitVal c1, r')))"

text \<open>\<open>skip(value, prefix)\<close> for a one-byte prefix that is not a space.\<close>

definition skip :: "string \<Rightarrow> char \<Rightarrow> string option" where
  "skip v p = (case v of [] \<Rightarrow> None | c # r \<Rightarrow> if c = p then Some r else None)"

definition isLeap :: "int \<Rightarrow> bool" where
  "isLeap year = (year mod 4 = 0 \<and> (year mod 100 \<noteq> 0 \<or> year mod 400 = 0))"

definition daysIn :: "int \<Rightarrow> int \<Rightarrow> int" where
  "daysIn m year =
     (if m = 2 then (if isLeap year then 29 else 28)
      else if m = 4 \<or> m = 6 \<or> m = 9 \<or> m = 11 then 30
      else 31)"

text \<open>
  \<open>time.Parse("2006-01-02", date)\<close>: a year of four digits, \<open>-\<close>, a month of two digits
  in 1..12, \<open>-\<close>, a day of two digits, nothing after it, and the day must exist in that
  month of that year. The result is year, month and day; \<open>None\<close> is the error.
\<close>

definition parseDate :: "string \<Rightarrow> (int \<times> int \<times> int) option" where
  "parseDate v =
     (if length v < 4 \<or> \<not> list_all isDigit (take 4 v) then None
      else
        let year = foldl (\<lambda>a c. a * 10 + digitVal c) 0 (take 4 v)
        in case skip (drop 4 v) (CHR ''-'') of
             None \<Rightarrow> None
           | Some v1 \<Rightarrow>
               (case getnum v1 True of
                  None \<Rightarrow> None
                | Some (month, v2) \<Rightarrow>
                    if month \<le> 0 \<or> 12 < month then None
                    else
                      (case skip v2 (CHR ''-'') of
                         None \<Rightarrow> None
                       | Some v3 \<Rightarrow>
                           (case getnum v3 True of
                              None \<Rightarrow> None
                            | Some (day, v4) \<Rightarrow>
                                if v4 \<noteq> [] then None
                                else if day < 1 \<or> daysIn month year < day then None
                                else Some (year, month, day)))))"

text \<open>
  \<open>time.Parse("15:04", timeStr)\<close>: an hour of one or two digits below 24, \<open>:\<close>, a minute
  of two digits below 60, and nothing after it. The result is hour and minute.
\<close>

definition parseClock :: "string \<Rightarrow> (int \<times> int) option" where
  "parseClock v =
     (case getnum v False of
        None \<Rightarrow> None
      | Some (hour, v1) \<Rightarrow>
          if hour < 0 \<or> 24 \<le> hour then None
          else
            (case skip v1 (CHR '':'') of
               None \<Rightarrow> None
             | Some v2 \<Rightarrow>
                 (case getnum v2 True of
                    None \<Rightarrow> None
                  | Some (minute, v3) \<Rightarrow>
                      if minute < 0 \<or> 60 \<le> minute then None
                      else if v3 \<noteq> [] then None
                      else Some (hour, minute))))"

subsection \<open>\<open>strings.TrimSpace\<close>, \<open>strings.HasSuffix\<close> and the regular expression\<close>

text \<open>
  The UTF-8 encodings of the code points with Unicode's White Space property, which is
  what \<open>unicode.IsSpace\<close> tests: U+0009..U+000D, U+0020, U+0085, U+00A0, U+1680,
  U+2000..U+200A, U+2028, U+2029, U+202F, U+205F, U+3000. No encoding is a prefix or a
  suffix of another, and a byte sequence that does not decode (which \<open>TrimSpace\<close> reads
  as U+FFFD) is none of them.
\<close>

definition whiteSpace :: "string list" where
  "whiteSpace =
     map (\<lambda>c. [c]) [CHR 0x09, CHR 0x0A, CHR 0x0B, CHR 0x0C, CHR 0x0D, CHR 0x20]
     @ map (\<lambda>c. [CHR 0xC2, c]) [CHR 0x85, CHR 0xA0]
     @ [CHR 0xE1, CHR 0x9A, CHR 0x80]
     # map (\<lambda>c. [CHR 0xE2, CHR 0x80, c])
         [CHR 0x80, CHR 0x81, CHR 0x82, CHR 0x83, CHR 0x84, CHR 0x85, CHR 0x86, CHR 0x87,
          CHR 0x88, CHR 0x89, CHR 0x8A, CHR 0xA8, CHR 0xA9, CHR 0xAF]
     @ [CHR 0xE2, CHR 0x81, CHR 0x9F]
     # [CHR 0xE3, CHR 0x80, CHR 0x80]
     # []"

text \<open>The width in bytes of the white-space rune that starts (ends) the text, 0 if none.\<close>

definition leadingSpace :: "string \<Rightarrow> nat" where
  "leadingSpace s = (case filter (\<lambda>w. prefix w s) whiteSpace of [] \<Rightarrow> 0 | w # _ \<Rightarrow> length w)"

definition trailingSpace :: "string \<Rightarrow> nat" where
  "trailingSpace s = (case filter (\<lambda>w. suffix w s) whiteSpace of [] \<Rightarrow> 0 | w # _ \<Rightarrow> length w)"

function trimLeft :: "string \<Rightarrow> string" where
  "trimLeft s = (if s = [] \<or> leadingSpace s = 0 then s else trimLeft (drop (leadingSpace s) s))"
  by pat_completeness auto
termination
  by (relation "measure length") auto

function trimRight :: "string \<Rightarrow> string" where
  "trimRight s =
     (if s = [] \<or> trailingSpace s = 0 then s else trimRight (take (length s - trailingSpace s) s))"
  by pat_completeness auto
termination
  by (relation "measure length") auto

declare trimLeft.simps [simp del] trimRight.simps [simp del]

definition TrimSpace :: "string \<Rightarrow> string" where
  "TrimSpace s = trimRight (trimLeft s)"

definition HasSuffix :: "string \<Rightarrow> string \<Rightarrow> bool" where
  "HasSuffix s suf = suffix suf s"

definition isAlnum :: "char \<Rightarrow> bool" where
  "isAlnum c = ((97 \<le> byte c \<and> byte c \<le> 122) \<or> (65 \<le> byte c \<and> byte c \<le> 90) \<or> isDigit c)"

subsection \<open>The receipt and its helpers\<close>

record Item =
  ShortDescription :: string
  Price :: string

record Receipt =
  ID :: string
  Retailer :: string
  PurchaseDate :: string
  PurchaseTime :: string
  Items :: "Item list"
  Total :: string

text \<open>
  \<open>getAlphanumericString\<close> deletes every match of \<open>[^a-zA-Z0-9]\<close>. A match is one rune,
  and every byte of a rune outside ASCII is above 127, so the bytes that stay are the
  ASCII letters and digits.
\<close>

definition getAlphanumericString :: "string \<Rightarrow> string" where
  "getAlphanumericString s = filter isAlnum s"

definition isRoundDollar :: "string \<Rightarrow> bool" where
  "isRoundDollar totalStr = HasSuffix totalStr ''.00''"

definition parsePrice :: "string \<Rightarrow> float64 \<times> numError option" where
  "parsePrice price = ParseFloat price"

definition isMultipleOfQuarter :: "string \<Rightarrow> bool" where
  "isMultipleOfQuarter totalStr =
     (case parsePrice totalStr of
        (price, Some err) \<Rightarrow> False
      | (price, None) \<Rightarrow> isZero (Mod price const_0_25))"

text \<open>\<open>parsedDate.Day()\<close> is the day of the month that was parsed.\<close>

definition isOddDay :: "string \<Rightarrow> bool" where
  "isOddDay date =
     (case parseDate date of
        None \<Rightarrow> False
      | Some (year, month, day) \<Rightarrow> day mod 2 \<noteq> 0)"

text \<open>\<open>parsedTime.Hour()\<close> is the hour that was parsed.\<close>

definition isBetween2And4PM :: "string \<Rightarrow> bool" where
  "isBetween2And4PM timeStr =
     (case parseClock timeStr of
        None \<Rightarrow> False
      | Some (hour, minute) \<Rightarrow> 14 \<le> hour \<and> hour < 16)"

subsection \<open>\<open>calculatePoints\<close>\<close>

text \<open>
  The body of the loop of rule 5, on the running total. The error of \<open>parsePrice\<close> is
  dropped there, as in the source.
\<close>

definition itemStep :: "(float64 \<Rightarrow> int64) \<Rightarrow> int64 \<Rightarrow> Item \<Rightarrow> int64" where
  "itemStep oor points item =
     (if length (TrimSpace (ShortDescription item)) mod 3 = 0
      then points + toInt64 oor (Ceil (mul64 (fst (parsePrice (Price item))) const_0_2))
      else points)"

text \<open>
  The running total \<open>points\<close> is an \<open>int64\<close>, updated rule after rule in the order of the
  source; \<open>+\<close> on \<open>64 word\<close> wraps around as Go's does. The receipt is passed by value
  and nothing but \<open>points\<close> is assigned, so the function is a function of the receipt
  (and of \<open>oor\<close>, the platform's conversion of out-of-range doubles) only.
\<close>

definition calculatePoints :: "(float64 \<Rightarrow> int64) \<Rightarrow> Receipt \<Rightarrow> int64" where
  "calculatePoints oor receipt =
     (let points = 0;
          points = points + of_nat (length (getAlphanumericString (Retailer receipt)));
          points = (if isRoundDollar (Total receipt) then points + 50 else points);
          points = (if isMultipleOfQuarter (Total receipt) then points + 25 else points);
          points = points + of_nat ((length (Items receipt) div 2) * 5);
          points = foldl (itemStep oor) points (Items receipt);
          points = (if isOddDay (PurchaseDate receipt) then points + 6 else points);
          points = (if isBetween2And4PM (PurchaseTime receipt) then points + 10 else points)
      in points)"

subsection \<open>The handlers and the receipt store\<close>

text \<open>
  \<open>receiptStore\<close> is a map from identifiers to receipts. A handler takes the store and
  returns its response with the store after the call. The decoded request body (\<open>None\<close>
  when decoding fails) and the fresh identifier of \<open>uuid.New\<close> are inputs of
  \<open>ProcessReceipt\<close>.
\<close>

type_synonym receiptStore = "string \<rightharpoonup> Receipt"

datatype response = BadRequest | NotFound | IdResponse string | PointsResponse int64

definition ProcessReceipt :: "receiptStore \<Rightarrow> Receipt option \<Rightarrow> string \<Rightarrow> response \<times> receiptStore" where
  "ProcessReceipt store body newId =
     (case body of
        None \<Rightarrow> (BadRequest, store)
      | Some receipt \<Rightarrow> (IdResponse newId, store(newId \<mapsto> receipt\<lparr>ID := newId\<rparr>)))"

definition GetPoints :: "(float64 \<Rightarrow> int64) \<Rightarrow> receiptStore \<Rightarrow> string \<Rightarrow> response \<times> receiptStore" where
  "GetPoints oor store ident =
     (case store ident of
        None \<Rightarrow> (NotFound, store)
      | Some receipt \<Rightarrow> (PointsResponse (calculatePoints oor receipt), store))"

subsection \<open>The contribution of each rule\<close>

text \<open>
  What each of the seven rules adds to the running total of \<open>calculatePoints\<close>; the
  lemma \<open>calculatePoints_rules\<close> below shows that the result is their sum.
\<close>

definition retailerPoints :: "string \<Rightarrow> int64" where
  "retailerPoints retailer = of_nat (length (getAlphanumericString retailer))"

definition roundDollarPoints :: "string \<Rightarrow> int64" where
  "roundDollarPoints totalStr = (if isRoundDollar totalStr then 50 else 0)"

definition quarterPoints :: "string \<Rightarrow> int64" where
  "quarterPoints totalStr = (if isMultipleOfQuarter totalStr then 25 else 0)"

definition itemCountPoints :: "Item list \<Rightarrow> int64" where
  "itemCountPoints items = of_nat ((length items div 2) * 5)"

definition itemPoints :: "(float64 \<Rightarrow> int64) \<Rightarrow> Item \<Rightarrow> int64" where
  "itemPoints oor item = itemStep oor 0 item"

definition descriptionPoints :: "(float64 \<Rightarrow> int64) \<Rightarrow> Item list \<Rightarrow> int64" where
  "descriptionPoints oor items = foldl (itemStep oor) 0 items"

definition oddDayPoints :: "string \<Rightarrow> int64" where
  "oddDayPoints date = (if isOddDay date then 6 else 0)"

definition afternoonPoints :: "string \<Rightarrow> int64" where
  "afternoonPoints timeStr = (if isBetween2And4PM timeStr then 10 else 0)"

subsection \<open>The contributions as unbounded integers\<close>

text \<open>A finite double that is zero or positive.\<close>

fun nonNegative :: "float64 \<Rightarrow> bool" where
  "nonNegative (Finite m e) = (0 \<le> m)"
| "nonNegative _ = False"

text \<open>
  What an item adds under rule 5 and the sum of the seven contributions, computed in the
  integers, where nothing wraps around.
\<close>

definition itemExact :: "Item \<Rightarrow> int" where
  "itemExact item =
     (if length (TrimSpace (ShortDescription item)) mod 3 = 0
      then truncInt (Ceil (mul64 (fst (parsePrice (Price item))) const_0_2))
      else 0)"

definition exactPoints :: "Receipt \<Rightarrow> int" where
  "exactPoints r =
     int (length (getAlphanumericString (Retailer r)))
     + (if isRoundDollar (Total r) then 50 else 0)
     + (if isMultipleOfQuarter (Total r) then 25 else 0)
     + int ((length (Items r) div 2) * 5)
     + sum_list (map itemExact (Items r))
     + (if isOddDay (PurchaseDate r) then 6 else 0)
     + (if isBetween2And4PM (PurchaseTime r) then 10 else 0)"

subsection \<open>Concrete inputs\<close>

text \<open>
  On amd64 the conversion \<open>int64(x)\<close> is the instruction \<open>CVTTSD2SQ\<close>, which gives
  \<open>0x8000000000000000\<close> for a NaN, an infinity or a value out of range.
\<close>

definition oorAmd64 :: "float64 \<Rightarrow> int64" where
  "oorAmd64 x = word_of_int (- (2 ^ 63))"

text \<open>The receipt of the end-to-end example, stored under the identifier \<open>ident\<close>.\<close>

definition classicReceipt :: "string \<Rightarrow> Receipt" where
  "classicReceipt ident =
     \<lparr>ID = ident, Retailer = ''Target'', PurchaseDate = ''2022-01-01'', PurchaseTime = ''13:01'',
      Items =
        [\<lparr>ShortDescription = ''Mountain Dew 12PK'', Price = ''6.49''\<rparr>,
         \<lparr>ShortDescription = ''Emils Cheese Pizza'', Price = ''12.25''\<rparr>,
         \<lparr>ShortDescription = ''Knorr Creamy Chicken'', Price = ''1.26''\<rparr>,
         \<lparr>ShortDescription = ''Doritos Nacho Cheese'', Price = ''3.35''\<rparr>,
         \<lparr>ShortDescription = ''   Klarbrunn 12-PK 12 FL OZ  '', Price = ''12.00''\<rparr>],
      Total = ''35.35''\<rparr>"

text \<open>A receipt with one item, a refund: its price is negative.\<close>

definition refundReceipt :: Receipt where
  "refundReceipt =
     \<lparr>ID = [], Retailer = [], PurchaseDate = ''2022-01-02'', PurchaseTime = ''13:01'',
      Items = [\<lparr>ShortDescription = ''abc'', Price = ''-5.00''\<rparr>],
      Total = ''-5.01''\<rparr>"

text \<open>A receipt whose total, item price, date and time are all unparseable.\<close>

definition malformedReceipt :: Receipt where
  "malformedReceipt =
     \<lparr>ID = [], Retailer = [], PurchaseDate = ''2022-02-30'', PurchaseTime = ''24:00'',
      Items = [\<lparr>ShortDescription = ''abc'', Price = ''12.x''\<rparr>],
      Total = ''abc''\<rparr>"

section \<open>Properties\<close>

subsection \<open>The result is the sum of the seven contributions\<close>

lemma foldl_itemStep:
  "foldl (itemStep oor) p items = p + sum_list (map (itemPoints oor) items)"
proof (induction items arbitrary: p)
  case Nil
  show ?case by simp
next
  case (Cons item items)
  have "itemStep oor p item = p + itemPoints oor item"
    by (simp add: itemStep_def itemPoints_def)
  with Cons show ?case by (simp add: add.assoc)
qed

lemma descriptionPoints_sum:
  "descriptionPoints oor items = sum_list (map (itemPoints oor) items)"
  by (simp add: descriptionPoints_def foldl_itemStep)

lemma calculatePoints_rules:
  "calculatePoints oor r =
     retailerPoints (Retailer r) + roundDollarPoints (Total r) + quarterPoints (Total r)
     + itemCountPoints (Items r) + descriptionPoints oor (Items r)
     + oddDayPoints (PurchaseDate r) + afternoonPoints (PurchaseTime r)"
  by (simp add: calculatePoints_def Let_def foldl_itemStep descriptionPoints_sum
      retailerPoints_def roundDollarPoints_def quarterPoints_def itemCountPoints_def
      oddDayPoints_def afternoonPoints_def)

subsection \<open>The end-to-end example\<close>

text \<open>
  C1. For the receipt of the classic example (retailer "Target", date "2022-01-01",
  time "13:01", the five listed items, total "35.35"), \<open>calculatePoints\<close> returns exactly
  28, whatever identifier the receipt carries and on every platform: 6 for the retailer,
  10 for the two pairs of items, 3 + 3 for the two descriptions of 18 and 24 bytes, 6 for
  the odd day, and nothing for the total and the time.
\<close>

theorem classic_example_28:
  "calculatePoints oor (classicReceipt ident) = 28
   \<and> sint (calculatePoints oor (classicReceipt ident)) = 28
   \<and> retailerPoints (Retailer (classicReceipt ident)) = 6
   \<and> roundDollarPoints (Total (classicReceipt ident)) = 0
   \<and> quarterPoints (Total (classicReceipt ident)) = 0
   \<and> itemCountPoints (Items (classicReceipt ident)) = 10
   \<and> descriptionPoints oor (Items (classicReceipt ident)) = 6
   \<and> oddDayPoints (PurchaseDate (classicReceipt ident)) = 6
   \<and> afternoonPoints (PurchaseTime (classicReceipt ident)) = 0"
  unfolding classicReceipt_def by code_simp

subsection \<open>Facts about the doubles\<close>

lemma pow2_pos: "0 < pow2 k"
  by (simp add: pow2_def)

lemma const_0_2_eq: "const_0_2 = Finite 7205759403792794 (- 55)"
  by code_simp

lemma valof_exp_ge:
  assumes "- 2 \<le> e"
  shows "(of_int m * 2 powi e :: rat) = of_int (m * pow2 (e + 2)) / 4"
proof -
  have "(2::rat) powi e = 2 powi (e + 2) / 4"
    by (simp add: power_int_add)
  also have "(2::rat) powi (e + 2) = of_int (pow2 (e + 2))"
    using assms by (simp add: pow2_def power_int_def)
  finally show ?thesis by simp
qed

lemma valof_exp_less:
  assumes "e < - 2"
  shows "(of_int m * 2 powi e :: rat) = of_int m / (4 * of_int (pow2 (- 2 - e)))"
proof -
  have "(2::rat) powi e = 2 powi (e + 2) / 4"
    by (simp add: power_int_add)
  also have "(2::rat) powi (e + 2) = inverse (of_int (pow2 (- 2 - e)))"
  proof -
    have "- e - 2 = - 2 - e" by simp
    then show ?thesis
      using assms by (simp add: pow2_def power_int_def power_one_over inverse_eq_divide)
  qed
  finally show ?thesis by (simp add: field_simps)
qed

text \<open>\<open>math.Mod(x, 0.25) == 0\<close> holds exactly when the value of \<open>x\<close> is a multiple of 1/4.\<close>

lemma Mod_quarter_zero:
  "isZero (Mod (Finite m e) const_0_25) \<longleftrightarrow> (\<exists>k::int. valof (Finite m e) = of_int k / 4)"
proof (cases "- 2 \<le> e")
  case True
  then have "isZero (Mod (Finite m e) const_0_25)"
    by (simp add: const_0_25_def Let_def min_def pow2_def)
  moreover have "valof (Finite m e) = of_int (m * pow2 (e + 2)) / 4"
    using valof_exp_ge[OF True, of m] by simp
  then have "\<exists>k::int. valof (Finite m e) = of_int k / 4" by blast
  ultimately show ?thesis by simp
next
  case False
  then have e: "e < - 2" by simp
  define b where "b = pow2 (- 2 - e)"
  have bpos: "0 < b" by (simp add: b_def pow2_pos)
  have "isZero (Mod (Finite m e) const_0_25) \<longleftrightarrow> \<bar>m\<bar> mod b = 0"
    using e bpos by (auto simp: const_0_25_def Let_def min_def b_def pow2_def sgn_if)
  also have "\<dots> \<longleftrightarrow> b dvd m"
    by (simp add: dvd_eq_mod_eq_0[symmetric])
  also have "\<dots> \<longleftrightarrow> (\<exists>k::int. valof (Finite m e) = of_int k / 4)"
  proof
    assume "b dvd m"
    then obtain k where "m = b * k" by (auto simp: dvd_def)
    then have "valof (Finite m e) = of_int k / 4"
      using valof_exp_less[OF e, of m] bpos by (simp add: b_def)
    then show "\<exists>k::int. valof (Finite m e) = of_int k / 4" by blast
  next
    assume "\<exists>k::int. valof (Finite m e) = of_int k / 4"
    then obtain k :: int where "valof (Finite m e) = of_int k / 4" by blast
    then have "(of_int m :: rat) / (4 * of_int b) = of_int k / 4"
      using valof_exp_less[OF e, of m] by (simp add: b_def)
    then have "(of_int m :: rat) = of_int (k * b)"
      using bpos by (simp add: field_simps)
    then have "m = k * b" by (simp only: of_int_eq_iff)
    then show "b dvd m" by simp
  qed
  finally show ?thesis .
qed

lemma isMultipleOfQuarter_iff:
  "isMultipleOfQuarter t \<longleftrightarrow>
     (\<exists>v. parsePrice t = (v, None) \<and> isFinite v \<and> (\<exists>k::int. valof v = of_int k / 4))"
proof (cases "parsePrice t")
  case (Pair v err)
  show ?thesis
  proof (cases err)
    case (Some a)
    with Pair show ?thesis by (simp add: isMultipleOfQuarter_def)
  next
    case None
    show ?thesis
    proof (cases v)
      case (Finite m e)
      with Pair None Mod_quarter_zero[of m e] show ?thesis
        by (simp add: isMultipleOfQuarter_def)
    qed (use Pair None in \<open>simp_all add: isMultipleOfQuarter_def const_0_25_def\<close>)
  qed
qed

text \<open>\<open>int64(math.Ceil(x))\<close> is the ceiling of the value of \<open>x\<close>.\<close>

lemma truncInt_Ceil: "truncInt (Ceil (Finite m e)) = \<lceil>valof (Finite m e)\<rceil>"
proof (cases "0 \<le> e")
  case True
  have "(of_int m * 2 powi e :: rat) = of_int (m * pow2 e)"
    using True by (simp add: pow2_def power_int_def)
  then have "\<lceil>valof (Finite m e)\<rceil> = m * pow2 e" by (simp del: of_int_mult)
  moreover have "truncInt (Ceil (Finite m e)) = m * pow2 e"
    using True by (simp add: pow2_def sgn_if)
  ultimately show ?thesis by simp
next
  case False
  have "(of_int m * 2 powi e :: rat) = of_int m / of_int (pow2 (- e))"
    using False by (simp add: pow2_def power_int_def field_simps)
  then have "\<lceil>valof (Finite m e)\<rceil> = - ((- m) div pow2 (- e))"
    by (simp add: ceiling_divide_eq_div del: of_int_power)
  moreover have "truncInt (Ceil (Finite m e)) = - ((- m) div pow2 (- e))"
    using False by (simp add: pow2_def sgn_if)
  ultimately show ?thesis by simp
qed

lemma sint_toInt64:
  assumes "inInt64 x"
  shows "sint (toInt64 oor x) = truncInt x"
proof -
  from assms have "- (2 ^ 63) \<le> truncInt x" "truncInt x < 2 ^ 63"
    by (simp_all add: inInt64_def)
  then have "signed_take_bit 63 (truncInt x) = truncInt x"
    by (rule signed_take_bit_int_eq_self)
  with assms show ?thesis by (simp add: toInt64_def sint_sbintrunc')
qed

subsection \<open>Facts about rounding\<close>

lemma bitlen_bounds:
  "0 < n \<Longrightarrow> 0 < bitlen n \<and> 2 ^ nat (bitlen n - 1) \<le> n \<and> n < 2 ^ nat (bitlen n)"
proof (induction n rule: bitlen.induct)
  case (1 n)
  show ?case
  proof (cases "n div 2 = 0")
    case True
    with "1.prems" have n1: "n = 1" by presburger
    have "bitlen 1 = 1" by (simp add: bitlen.simps)
    with n1 show ?thesis by simp
  next
    case False
    with "1.prems" have pos: "0 < n div 2" by presburger
    from "1.IH" "1.prems" pos
    have ih: "0 < bitlen (n div 2)" "2 ^ nat (bitlen (n div 2) - 1) \<le> n div 2"
      "n div 2 < 2 ^ nat (bitlen (n div 2))"
      by simp_all
    define b where "b = bitlen (n div 2)"
    have bn: "bitlen n = 1 + b"
      using "1.prems" by (subst bitlen.simps) (simp add: b_def)
    from ih have b0: "0 < b" by (simp add: b_def)
    have e1: "nat (bitlen n - 1) = Suc (nat (b - 1))" using bn b0 by simp
    have e2: "nat (bitlen n) = Suc (nat b)" using bn b0 by simp
    have "2 * 2 ^ nat (b - 1) \<le> 2 * (n div 2)" using ih(2) by (simp add: b_def)
    also have "\<dots> \<le> n" by presburger
    finally have lo: "2 ^ nat (bitlen n - 1) \<le> n" unfolding e1 by simp
    have "n div 2 + 1 \<le> 2 ^ nat b" using ih(3) by (simp add: b_def)
    then have "2 * (n div 2) + 2 \<le> 2 * 2 ^ nat b" by simp
    moreover have "n \<le> 2 * (n div 2) + 1" by presburger
    ultimately have hi: "n < 2 ^ nat (bitlen n)" unfolding e2 by simp
    from bn b0 lo hi show ?thesis by simp
  qed
qed

lemma pow2_ratio: "(of_int (pow2 k) / of_int (pow2 (- k)) :: rat) = 2 powi k"
  by (cases "0 \<le> k") (simp_all add: pow2_def power_int_def power_one_over inverse_eq_divide)

lemma pow2_rat_pos: "0 < (of_int (pow2 k) :: rat)"
  by (simp add: pow2_def)

lemma bitlen_rat_bounds:
  assumes "0 < n"
  shows "(2::rat) powi (bitlen n - 1) \<le> of_int n" and "(of_int n :: rat) < 2 powi (bitlen n)"
proof -
  from bitlen_bounds[OF assms]
  have b: "0 < bitlen n" and lo: "2 ^ nat (bitlen n - 1) \<le> n" and hi: "n < 2 ^ nat (bitlen n)"
    by simp_all
  have "(of_int (2 ^ nat (bitlen n - 1)) :: rat) \<le> of_int n"
    using lo by (simp only: of_int_le_iff)
  then show "(2::rat) powi (bitlen n - 1) \<le> of_int n"
    using b by (simp add: power_int_def)
  have "(of_int n :: rat) < of_int (2 ^ nat (bitlen n))"
    using hi by (simp only: of_int_less_iff)
  then show "(of_int n :: rat) < 2 powi (bitlen n)"
    using b by (simp add: power_int_def)
qed

text \<open>The comparison of round64 decides on which side of a power of two the fraction lies.\<close>

lemma scaled_le_iff:
  assumes "0 < d"
  shows "d * pow2 k \<le> n * pow2 (- k) \<longleftrightarrow> (2::rat) powi k \<le> of_int n / of_int d"
proof -
  have dp: "0 < (of_int d :: rat)" using assms by simp
  have "d * pow2 k \<le> n * pow2 (- k) \<longleftrightarrow>
      (of_int d * of_int (pow2 k) :: rat) \<le> of_int n * of_int (pow2 (- k))"
    by (simp only: of_int_mult[symmetric] of_int_le_iff)
  also have "\<dots> \<longleftrightarrow> (of_int (pow2 k) / of_int (pow2 (- k)) :: rat) \<le> of_int n / of_int d"
    using dp pow2_rat_pos[of "- k"] by (simp add: field_simps)
  finally show ?thesis by (simp only: pow2_ratio)
qed

lemma scaled_less_iff:
  assumes "0 < d"
  shows "n * pow2 (- k) < d * pow2 k \<longleftrightarrow> (of_int n / of_int d :: rat) < 2 powi k"
  using scaled_le_iff[OF assms, of k n] by auto


lemma floorLog2_bounds:
  assumes n: "0 < n" and d: "0 < d"
  shows "(2::rat) powi (floorLog2 n d) \<le> of_int n / of_int d"
    and "(of_int n / of_int d :: rat) < 2 powi (floorLog2 n d + 1)"
proof -
  define e0 where "e0 = bitlen n - bitlen d"
  define e where "e = floorLog2 n d"
  have e_def: "e = (if d * pow2 e0 \<le> n * pow2 (- e0) then e0 else e0 - 1)"
    by (simp add: e_def floorLog2_def e0_def Let_def)
  let ?x = "of_int n / of_int d :: rat"
  have dp: "0 < (of_int d :: rat)" and np: "0 < (of_int n :: rat)" using n d by simp_all
  note bn = bitlen_rat_bounds[OF n] and bd = bitlen_rat_bounds[OF d]
  have P: "0 < (2::rat) powi k" for k by simp
  have "?x < 2 powi (bitlen n) / of_int d"
    using bn(2) dp by (simp add: divide_strict_right_mono)
  also have "\<dots> \<le> 2 powi (bitlen n) / 2 powi (bitlen d - 1)"
    using bd(1) P dp by (intro divide_left_mono mult_pos_pos) simp_all
  also have "\<dots> = 2 powi (bitlen n - (bitlen d - 1))"
    by (rule power_int_diff[symmetric]) simp
  also have "bitlen n - (bitlen d - 1) = e0 + 1"
    by (simp add: e0_def)
  finally have up: "?x < 2 powi (e0 + 1)" .
  have eq: "e0 - 1 = bitlen n - 1 - bitlen d"
    by (simp add: e0_def)
  have "(2::rat) powi (e0 - 1) = 2 powi (bitlen n - 1 - bitlen d)"
    by (simp only: eq)
  also have "\<dots> = 2 powi (bitlen n - 1) / 2 powi (bitlen d)"
    by (rule power_int_diff) simp
  also have "\<dots> < 2 powi (bitlen n - 1) / of_int d"
    using bd(2) dp P by (intro divide_strict_left_mono) simp_all
  also have "\<dots> \<le> ?x"
    using bn(1) dp by (simp add: divide_right_mono)
  finally have lo: "(2::rat) powi (e0 - 1) < ?x" .
  have "(2::rat) powi e \<le> ?x"
    using lo scaled_le_iff[OF d, of e0 n] by (auto simp: e_def)
  then show "(2::rat) powi (floorLog2 n d) \<le> ?x" by (simp add: e_def[symmetric] \<open>e = floorLog2 n d\<close>[symmetric])
  have "?x < 2 powi (e + 1)"
    using up scaled_le_iff[OF d, of e0 n] by (auto simp: e_def)
  then show "?x < 2 powi (floorLog2 n d + 1)" by (simp add: \<open>e = floorLog2 n d\<close>[symmetric])
qed

lemma roundHalfEven_bounds:
  assumes D: "0 < D" and N: "0 \<le> N" and K: "N < K * D"
  shows "0 \<le> roundHalfEven N D" and "roundHalfEven N D \<le> K"
proof -
  have q0: "0 \<le> N div D" using D N by (simp add: pos_imp_zdiv_nonneg_iff)
  have "D * (N div D) + N mod D = N" by (rule mult_div_mod_eq)
  moreover have "0 \<le> N mod D" using D by simp
  ultimately have "D * (N div D) \<le> N" by linarith
  have qK: "N div D < K"
  proof (rule ccontr)
    assume "\<not> N div D < K"
    then have "K * D \<le> (N div D) * D" using D by (simp add: mult_right_mono)
    also have "\<dots> \<le> N" using \<open>D * (N div D) \<le> N\<close> by (simp add: mult.commute)
    finally show False using K by simp
  qed
  show "0 \<le> roundHalfEven N D" using q0 by (simp add: roundHalfEven_def Let_def)
  show "roundHalfEven N D \<le> K" using qK by (simp add: roundHalfEven_def Let_def)
qed


lemma mantissa_bounds:
  assumes n: "0 < n" and d: "0 < d" and s: "floorLog2 n d - 52 \<le> s"
  shows "0 \<le> roundHalfEven (n * pow2 (- s)) (d * pow2 s)"
    and "roundHalfEven (n * pow2 (- s)) (d * pow2 s) \<le> 2 ^ 53"
proof -
  have "(of_int n / of_int d :: rat) < 2 powi (floorLog2 n d + 1)"
    by (rule floorLog2_bounds(2)[OF n d])
  also have "\<dots> \<le> 2 powi (s + 53)"
    using s by (intro power_int_increasing) simp_all
  also have "\<dots> = 2 powi s * 2 ^ 53"
    by (simp add: power_int_add)
  finally have "(of_int n / of_int (2 ^ 53 * d) :: rat) < 2 powi s"
    using d by (simp add: field_simps)
  then have lt: "n * pow2 (- s) < 2 ^ 53 * (d * pow2 s)"
    using scaled_less_iff[of "2 ^ 53 * d" n s] d by (simp add: mult.assoc)
  have D: "0 < d * pow2 s" using d pow2_pos[of s] by simp
  have N: "0 \<le> n * pow2 (- s)" using n pow2_pos[of "- s"] by simp
  show "0 \<le> roundHalfEven (n * pow2 (- s)) (d * pow2 s)"
    by (rule roundHalfEven_bounds(1)[OF D N lt])
  show "roundHalfEven (n * pow2 (- s)) (d * pow2 s) \<le> 2 ^ 53"
    by (rule roundHalfEven_bounds(2)[OF D N lt])
qed

lemma round64_finite:
  assumes n: "0 < n" and d: "0 < d" and x: "(of_int n / of_int d :: rat) < 2 powi 1022"
  shows "isFinite (round64 neg n d)"
proof -
  define s where "s = max (floorLog2 n d) (- 1022) - 52"
  define m where "m = roundHalfEven (n * pow2 (- s)) (d * pow2 s)"
  have "(2::rat) powi (floorLog2 n d) < 2 powi 1022"
    using floorLog2_bounds(1)[OF n d] x by simp
  then have "floorLog2 n d < 1022"
    by (rule power_int_le_imp_less_exp[rotated]) simp_all
  then have s969: "s \<le> 969" by (simp add: s_def)
  have "floorLog2 n d - 52 \<le> s" by (simp add: s_def)
  from mantissa_bounds[OF n d this] have m: "0 \<le> m" "m \<le> 2 ^ 53" by (simp_all add: m_def)
  have "m * pow2 s < 2 ^ 1024" if "0 \<le> s"
  proof -
    have "(2::int) ^ nat s \<le> 2 ^ 969"
      by (rule power_increasing) (use that s969 in simp_all)
    then have "pow2 s \<le> 2 ^ 969"
      by (simp only: pow2_def)
    then have "m * pow2 s \<le> 2 ^ 53 * 2 ^ 969"
      using m pow2_pos[of s] by (intro mult_mono) simp_all
    also have "\<dots> < (2::int) ^ 1024" by simp
    finally show ?thesis .
  qed
  then have "\<not> (0 \<le> s \<and> 2 ^ 1024 \<le> m * pow2 s)" by auto
  then show ?thesis
    using n by (simp add: round64_def Let_def s_def[symmetric] m_def[symmetric])
qed


lemma round64_Finite_cases:
  assumes d: "0 < d" and r: "round64 neg n d = Finite m s"
  shows "m = 0 \<or> (0 < n \<and> s = max (floorLog2 n d) (- 1022) - 52
           \<and> \<bar>m\<bar> = roundHalfEven (n * pow2 (- s)) (d * pow2 s)
           \<and> (neg \<longrightarrow> m \<le> 0) \<and> (\<not> neg \<longrightarrow> 0 \<le> m)
           \<and> \<not> (0 \<le> s \<and> 2 ^ 1024 \<le> \<bar>m\<bar> * pow2 s))"
proof (cases "n \<le> 0")
  case True
  with r show ?thesis by (simp add: round64_def)
next
  case False
  then have n: "0 < n" by simp
  define s' where "s' = max (floorLog2 n d) (- 1022) - 52"
  define m' where "m' = roundHalfEven (n * pow2 (- s')) (d * pow2 s')"
  have "floorLog2 n d - 52 \<le> s'" by (simp add: s'_def)
  from mantissa_bounds(1)[OF n d this] have m0: "0 \<le> m'" by (simp add: m'_def)
  from r n have "\<not> (0 \<le> s' \<and> 2 ^ 1024 \<le> m' * pow2 s')"
    and "Finite (if neg then - m' else m') s' = Finite m s"
    by (auto simp: round64_def Let_def s'_def[symmetric] m'_def[symmetric] split: if_splits)
  with m0 n show ?thesis
    by (auto simp: s'_def m'_def split: if_splits)
qed

lemma round64_value_bound:
  assumes d: "0 < d" and r: "round64 neg n d = Finite m s"
  shows "\<bar>valof (Finite m s)\<bar> < 2 powi 1024"
proof -
  from round64_Finite_cases[OF d r] consider "m = 0"
    | "0 < n" "s = max (floorLog2 n d) (- 1022) - 52"
      "\<bar>m\<bar> = roundHalfEven (n * pow2 (- s)) (d * pow2 s)"
      "\<not> (0 \<le> s \<and> 2 ^ 1024 \<le> \<bar>m\<bar> * pow2 s)"
    by blast
  then show ?thesis
  proof cases
    case 1
    then show ?thesis by simp
  next
    case 2
    have "floorLog2 n d - 52 \<le> s" using 2(2) by simp
    from mantissa_bounds(2)[OF 2(1) d this] 2(3) have m53: "\<bar>m\<bar> \<le> 2 ^ 53" by simp
    have v: "\<bar>valof (Finite m s)\<bar> = of_int \<bar>m\<bar> * 2 powi s"
      by (simp add: abs_mult)
    show ?thesis
    proof (cases "0 \<le> s")
      case True
      with 2(4) have "\<bar>m\<bar> * pow2 s < 2 ^ 1024" by simp
      then have "(of_int (\<bar>m\<bar> * pow2 s) :: rat) < of_int (2 ^ 1024)"
        by (simp only: of_int_less_iff)
      moreover have "(of_int (pow2 s) :: rat) = 2 powi s"
        using True by (simp add: pow2_def power_int_def)
      ultimately show ?thesis unfolding v by (simp del: of_int_abs)
    next
      case False
      then have "(2::rat) powi s \<le> 2 powi 0"
        by (intro power_int_increasing) simp_all
      then have "(of_int \<bar>m\<bar> :: rat) * 2 powi s \<le> of_int \<bar>m\<bar> * 1"
        by (intro mult_left_mono) simp_all
      also have "\<dots> \<le> of_int (2 ^ 53)"
        using m53 by (simp only: mult_1_right of_int_le_iff)
      also have "\<dots> < (2::rat) powi 1024" by simp
      finally show ?thesis unfolding v .
    qed
  qed
qed

lemma special_not_finite: "special t = Some (v, k) \<Longrightarrow> \<not> isFinite v"
  by (auto simp: special_def split: list.splits if_splits)

lemma readFloatTail_den_pos:
  "readFloatTail t neg hex ml = Some (neg', n, d, k) \<Longrightarrow> 0 < d"
  by (auto simp: readFloatTail_def literalFraction_def Let_def
      split: prod.splits option.splits if_splits)

lemma readFloat_den_pos: "readFloat t = Some (neg, n, d, k) \<Longrightarrow> 0 < d"
  by (cases t) (auto simp: readFloat_def Let_def dest: readFloatTail_den_pos)

lemma ParseFloat_value_bound:
  assumes "fst (ParseFloat t) = Finite m e"
  shows "\<bar>valof (Finite m e)\<bar> < 2 powi 1024"
proof (cases "special t")
  case (Some a)
  obtain v k where a: "a = (v, k)" by (cases a)
  with Some special_not_finite[of t v k] assms show ?thesis
    by (auto simp: ParseFloat_def split: if_splits)
next
  case None
  show ?thesis
  proof (cases "readFloat t")
    case rn: None
    with None assms show ?thesis by (simp add: ParseFloat_def)
  next
    case (Some b)
    obtain neg n d k where b: "b = (neg, n, d, k)" by (cases b)
    from Some b have d: "0 < d" by (simp add: readFloat_den_pos)
    show ?thesis
    proof (cases "k = length t")
      case True
      with None Some b assms have "round64 neg n d = Finite m e"
        by (simp add: ParseFloat_def Let_def)
      from round64_value_bound[OF d this] show ?thesis .
    next
      case False
      with None Some b assms show ?thesis by (simp add: ParseFloat_def)
    qed
  qed
qed


lemma round64_nonneg:
  assumes "0 < d" and "round64 False n d = Finite m s"
  shows "0 \<le> m"
  using round64_Finite_cases[OF assms] by auto

lemma mul_const_0_2_finite:
  assumes m: "0 \<le> m" and b: "\<bar>valof (Finite m e)\<bar> < 2 powi 1024"
  shows "\<exists>m' s. mul64 (Finite m e) const_0_2 = Finite m' s \<and> 0 \<le> m'"
proof (cases "m = 0")
  case True
  then show ?thesis by (simp add: const_0_2_eq round64_def)
next
  case False
  with m have mpos: "0 < m" by simp
  define c :: int where "c = 7205759403792794"
  define k where "k = e + (- 55)"
  define n where "n = \<bar>m * c\<bar> * pow2 k"
  define d where "d = pow2 (- k)"
  have mul: "mul64 (Finite m e) const_0_2 = round64 False n d"
    using mpos by (simp add: const_0_2_eq n_def d_def k_def c_def mult_less_0_iff)
  have npos: "0 < n" using mpos pow2_pos[of k] by (simp add: n_def c_def)
  have dpos: "0 < d" by (simp add: d_def pow2_pos)
  have "(of_int n / of_int d :: rat) = of_int (m * c) * (of_int (pow2 k) / of_int (pow2 (- k)))"
    using mpos by (simp add: n_def d_def c_def)
  also have "\<dots> = of_int (m * c) * 2 powi k"
    by (simp only: pow2_ratio)
  also have "\<dots> = (of_int m * 2 powi e) * (of_int c * 2 powi (- 55))"
  proof -
    have "(2::rat) powi k = 2 powi e * 2 powi (- 55)"
      unfolding k_def by (rule power_int_add) simp
    then show ?thesis by (simp only: of_int_mult mult_ac)
  qed
  also have "\<dots> \<le> (of_int m * 2 powi e) * 2 powi (- 2)"
    using mpos by (intro mult_left_mono) (simp_all add: c_def power_int_def power_one_over)
  also have "\<dots> < 2 powi 1024 * 2 powi (- 2)"
    using b mpos by (intro mult_strict_right_mono) (simp_all add: abs_mult)
  also have "\<dots> = (2::rat) powi 1022"
    by (simp add: power_int_add[symmetric])
  finally have "(of_int n / of_int d :: rat) < 2 powi 1022" .
  from round64_finite[OF npos dpos this, of False]
  obtain m' s where r: "round64 False n d = Finite m' s"
    by (cases "round64 False n d") simp_all
  from round64_nonneg[OF dpos r] mul r show ?thesis by simp
qed


text \<open>
  A price of magnitude below \<open>2 ^ 62\<close> gives a product with 0.2 whose ceiling fits in
  \<open>int64\<close>.
\<close>

lemma round64_small_value:
  assumes d: "0 < d" and r: "round64 neg n d = Finite m s"
    and x: "(of_int n / of_int d :: rat) < 2 powi 60"
  shows "\<bar>valof (Finite m s)\<bar> \<le> 2 ^ 60"
proof -
  from round64_Finite_cases[OF d r] consider "m = 0"
    | "0 < n" "s = max (floorLog2 n d) (- 1022) - 52"
      "\<bar>m\<bar> = roundHalfEven (n * pow2 (- s)) (d * pow2 s)"
    by blast
  then show ?thesis
  proof cases
    case 1
    then show ?thesis by simp
  next
    case 2
    have "floorLog2 n d - 52 \<le> s" using 2(2) by simp
    from mantissa_bounds(2)[OF 2(1) d this] 2(3) have m53: "\<bar>m\<bar> \<le> 2 ^ 53" by simp
    have "(2::rat) powi (floorLog2 n d) < 2 powi 60"
      using floorLog2_bounds(1)[OF 2(1) d] x by simp
    then have "floorLog2 n d < 60"
      by (rule power_int_le_imp_less_exp[rotated]) simp_all
    then have s7: "s \<le> 7" using 2(2) by simp
    have "\<bar>valof (Finite m s)\<bar> = of_int \<bar>m\<bar> * 2 powi s"
      by (simp add: abs_mult)
    also have "\<dots> \<le> of_int (2 ^ 53) * 2 powi s"
      using m53 by (intro mult_right_mono) (simp_all only: of_int_le_iff zero_le_power_int zero_le_numeral)
    also have "\<dots> \<le> of_int (2 ^ 53) * 2 powi 7"
      using s7 by (intro mult_left_mono power_int_increasing) simp_all
    also have "\<dots> = (2::rat) ^ 60" by simp
    finally show ?thesis .
  qed
qed

lemma mul_const_0_2_inInt64:
  assumes b: "\<bar>valof (Finite m e)\<bar> < 2 ^ 62"
  shows "inInt64 (Ceil (mul64 (Finite m e) const_0_2))"
proof (cases "m = 0")
  case True
  then show ?thesis by (simp add: const_0_2_eq round64_def inInt64_def pow2_def)
next
  case False
  define c :: int where "c = 7205759403792794"
  define k where "k = e + (- 55)"
  define n where "n = \<bar>m * c\<bar> * pow2 k"
  define d where "d = pow2 (- k)"
  have mul: "mul64 (Finite m e) const_0_2 = round64 (m * c < 0) n d"
    by (simp add: const_0_2_eq n_def d_def k_def c_def)
  have npos: "0 < n" using False pow2_pos[of k] by (simp add: n_def c_def)
  have dpos: "0 < d" by (simp add: d_def pow2_pos)
  have "(of_int n / of_int d :: rat) = of_int \<bar>m * c\<bar> * (of_int (pow2 k) / of_int (pow2 (- k)))"
    by (simp add: n_def d_def)
  also have "\<dots> = of_int \<bar>m * c\<bar> * 2 powi k"
    by (simp only: pow2_ratio)
  also have "\<dots> = (of_int \<bar>m\<bar> * 2 powi e) * (of_int c * 2 powi (- 55))"
  proof -
    have "(2::rat) powi k = 2 powi e * 2 powi (- 55)"
      unfolding k_def by (rule power_int_add) simp
    moreover have "\<bar>m * c\<bar> = \<bar>m\<bar> * c" by (simp add: abs_mult c_def)
    ultimately show ?thesis by (simp only: of_int_mult mult_ac)
  qed
  also have "\<dots> \<le> (of_int \<bar>m\<bar> * 2 powi e) * 2 powi (- 2)"
    by (intro mult_left_mono) (simp_all add: c_def power_int_def power_one_over)
  also have "\<dots> < 2 ^ 62 * 2 powi (- 2)"
    using b by (intro mult_strict_right_mono) (simp_all add: abs_mult)
  also have "\<dots> = (2::rat) powi 60"
    by (simp add: power_int_def power_one_over)
  finally have x60: "(of_int n / of_int d :: rat) < 2 powi 60" .
  also have "(2::rat) powi 60 \<le> 2 powi 1022"
    by (intro power_int_increasing) simp_all
  finally have "(of_int n / of_int d :: rat) < 2 powi 1022" .
  from round64_finite[OF npos dpos this, of "m * c < 0"]
  obtain m' s where r: "round64 (m * c < 0) n d = Finite m' s"
    by (cases "round64 (m * c < 0) n d") simp_all
  from round64_small_value[OF dpos r x60] have v: "\<bar>valof (Finite m' s)\<bar> \<le> 2 ^ 60" .
  then have "- (2 ^ 60) \<le> valof (Finite m' s)" and "valof (Finite m' s) \<le> 2 ^ 60"
    by (simp_all add: abs_le_iff)
  then have "- (2 ^ 60) \<le> \<lceil>valof (Finite m' s)\<rceil>" and "\<lceil>valof (Finite m' s)\<rceil> \<le> 2 ^ 60"
    by (simp_all add: le_ceiling_iff ceiling_le_iff)
  then have "- (2 ^ 63) \<le> truncInt (Ceil (Finite m' s))" and "truncInt (Ceil (Finite m' s)) < 2 ^ 63"
    unfolding truncInt_Ceil by simp_all
  then show ?thesis unfolding mul r by (simp add: inInt64_def)
qed

text \<open>
  Rounding keeps a multiple of 1/4: a literal whose exact value is a multiple of 1/4 and
  that \<open>parsePrice\<close> accepts passes the test of rule 3.
\<close>

lemma roundHalfEven_exact:
  assumes "0 < D" and "D dvd N"
  shows "roundHalfEven N D * D = N"
  using assms by (auto simp: roundHalfEven_def Let_def)

lemma round64_quarter:
  assumes d: "0 < d" and q: "d dvd 4 * n" and r: "round64 neg n d = Finite m s"
  shows "\<exists>k::int. valof (Finite m s) = of_int k / 4"
proof (cases "- 2 \<le> s")
  case True
  have "valof (Finite m s) = of_int (m * pow2 (s + 2)) / 4"
    using valof_exp_ge[OF True, of m] by simp
  then show ?thesis by blast
next
  case False
  then have s: "s < - 2" by simp
  from round64_Finite_cases[OF d r] consider "m = 0"
    | "\<bar>m\<bar> = roundHalfEven (n * pow2 (- s)) (d * pow2 s)"
    by blast
  then show ?thesis
  proof cases
    case 1
    then have "valof (Finite m s) = of_int 0 / 4" by simp
    then show ?thesis by blast
  next
    case 2
    define j where "j = pow2 (- 2 - s)"
    have jpos: "0 < j" by (simp add: j_def pow2_pos)
    have p1: "pow2 s = 1" using s by (simp add: pow2_def)
    have "nat (- s) = Suc (Suc (nat (- 2 - s)))" using s by simp
    then have p2: "pow2 (- s) = 4 * j" by (simp add: pow2_def j_def)
    from q obtain t where t: "4 * n = d * t" by (auto simp: dvd_def)
    have N: "n * pow2 (- s) = d * (t * j)"
      using t by (simp add: p2 algebra_simps)
    then have "d dvd n * pow2 (- s)" by simp
    from roundHalfEven_exact[OF d this] 2 have "\<bar>m\<bar> * d = d * (t * j)"
      by (simp add: p1 N)
    with d have am: "\<bar>m\<bar> = t * j" by simp
    have "(of_int \<bar>m\<bar> :: rat) / (4 * of_int j) = of_int t / 4"
      using jpos by (simp add: am)
    moreover have "(of_int (- \<bar>m\<bar>) :: rat) / (4 * of_int j) = of_int (- t) / 4"
      using jpos by (simp add: am)
    moreover have "m = \<bar>m\<bar> \<or> m = - \<bar>m\<bar>" by auto
    moreover have "valof (Finite m s) = of_int m / (4 * of_int j)"
      using valof_exp_less[OF s, of m] by (simp add: j_def)
    ultimately show ?thesis by metis
  qed
qed

lemma exact_quarter_multiple:
  assumes l: "exactLiteral t = Some (neg, n, d)" and q: "d dvd 4 * n"
    and ok: "snd (parsePrice t) = None"
  shows "isMultipleOfQuarter t"
proof -
  from l have sp: "special t = None"
    by (auto simp: exactLiteral_def split: option.splits)
  from l sp obtain k where rf: "readFloat t = Some (neg, n, d, k)" and k: "k = length t"
    by (auto simp: exactLiteral_def split: option.splits if_splits)
  from rf have d: "0 < d" by (rule readFloat_den_pos)
  from sp rf k have p: "parsePrice t = (round64 neg n d, if isFinite (round64 neg n d) then None else Some ErrRange)"
    by (simp add: parsePrice_def ParseFloat_def Let_def)
  with ok have "isFinite (round64 neg n d)" by (simp split: if_splits)
  then obtain m s where r: "round64 neg n d = Finite m s"
    by (cases "round64 neg n d") simp_all
  from round64_quarter[OF d q r] obtain j :: int where "valof (Finite m s) = of_int j / 4" by blast
  with p r show ?thesis
    by (subst isMultipleOfQuarter_iff) auto
qed

subsection \<open>Facts about parsed prices\<close>

text \<open>A syntax error of \<open>ParseFloat\<close> comes with the value 0.\<close>

lemma parsePrice_syntax_zero:
  assumes "snd (parsePrice p) = Some ErrSyntax"
  shows "fst (parsePrice p) = Finite 0 0"
  using assms
  by (auto simp: parsePrice_def ParseFloat_def Let_def split: option.splits prod.splits if_splits)

lemma zero_price_points:
  "toInt64 oor (Ceil (mul64 (Finite 0 0) const_0_2)) = 0"
  by (simp add: const_0_2_eq round64_def pow2_def toInt64_def inInt64_def)

lemma itemPoints_syntax_zero:
  assumes "snd (parsePrice (Price item)) = Some ErrSyntax"
  shows "itemPoints oor item = 0"
  using parsePrice_syntax_zero[OF assms]
  by (simp add: itemPoints_def itemStep_def zero_price_points)

subsection \<open>Facts about the clock parser\<close>

lemma digitVal_bounds: "isDigit c \<Longrightarrow> 0 \<le> digitVal c \<and> digitVal c \<le> 9"
  by (auto simp: isDigit_def digitVal_def)

lemma parseClock_two_digits:
  assumes "isDigit a" "isDigit b" "isDigit c" "isDigit d"
    and "10 * digitVal a + digitVal b < 24" and "10 * digitVal c + digitVal d < 60"
  shows "parseClock [a, b, CHR '':'', c, d] =
    Some (10 * digitVal a + digitVal b, 10 * digitVal c + digitVal d)"
  using assms digitVal_bounds[of a] digitVal_bounds[of b] digitVal_bounds[of c]
    digitVal_bounds[of d]
  by (simp add: parseClock_def getnum_def skip_def mult.commute)

lemma parseClock_afternoon:
  assumes "parseClock t = Some (h, m)" and "14 \<le> h"
  shows "\<exists>a b c d. t = [a, b, CHR '':'', c, d] \<and> isDigit a \<and> isDigit b \<and> isDigit c \<and> isDigit d
           \<and> h = 10 * digitVal a + digitVal b \<and> m = 10 * digitVal c + digitVal d
           \<and> h < 24 \<and> m < 60"
  using assms
  by (auto simp: parseClock_def getnum_def skip_def mult.commute
      split: list.splits if_splits option.splits dest: digitVal_bounds)

subsection \<open>Rule 2: round dollar total\<close>

text \<open>
  C4. Rule 2 is one of the seven summands of the result; it contributes exactly 50 if and
  only if the total literally ends with ".00", and 0 otherwise. The numerically round
  total "10.0" earns 0 from this rule, "10.00" earns 50.
\<close>

theorem round_dollar_literal_suffix:
  "calculatePoints oor r =
     retailerPoints (Retailer r) + roundDollarPoints (Total r) + quarterPoints (Total r)
     + itemCountPoints (Items r) + descriptionPoints oor (Items r)
     + oddDayPoints (PurchaseDate r) + afternoonPoints (PurchaseTime r)
   \<and> (roundDollarPoints t = 50 \<longleftrightarrow> (\<exists>pre. t = pre @ ''.00''))
   \<and> (roundDollarPoints t = 0 \<longleftrightarrow> \<not> (\<exists>pre. t = pre @ ''.00''))
   \<and> roundDollarPoints ''10.0'' = 0 \<and> roundDollarPoints ''10.00'' = 50"
proof -
  have "(roundDollarPoints t = 50 \<longleftrightarrow> (\<exists>pre. t = pre @ ''.00''))
      \<and> (roundDollarPoints t = 0 \<longleftrightarrow> \<not> (\<exists>pre. t = pre @ ''.00''))"
    by (auto simp: roundDollarPoints_def isRoundDollar_def HasSuffix_def suffix_def)
  moreover have "roundDollarPoints ''10.0'' = 0 \<and> roundDollarPoints ''10.00'' = 50"
    by (simp add: roundDollarPoints_def isRoundDollar_def HasSuffix_def suffix_def)
  ultimately show ?thesis
    using calculatePoints_rules[of oor r] by blast
qed

subsection \<open>Rule 7: the afternoon window\<close>

text \<open>
  C7. Rule 7 is one of the seven summands of the result; it contributes exactly 10 if and
  only if the purchase time has the 24-hour form HH:MM (two digits, a colon, two digits,
  hour below 24, minute below 60) with an hour of at least 14 and below 16. "14:33" earns
  10; "16:00" and "13:59" earn 0.
\<close>

theorem afternoon_window:
  "calculatePoints oor r =
     retailerPoints (Retailer r) + roundDollarPoints (Total r) + quarterPoints (Total r)
     + itemCountPoints (Items r) + descriptionPoints oor (Items r)
     + oddDayPoints (PurchaseDate r) + afternoonPoints (PurchaseTime r)
   \<and> (afternoonPoints t = 10 \<longleftrightarrow>
        (\<exists>a b c d. t = [a, b, CHR '':'', c, d]
           \<and> isDigit a \<and> isDigit b \<and> isDigit c \<and> isDigit d
           \<and> 10 * digitVal a + digitVal b < 24 \<and> 10 * digitVal c + digitVal d < 60
           \<and> 14 \<le> 10 * digitVal a + digitVal b \<and> 10 * digitVal a + digitVal b < 16))
   \<and> (afternoonPoints t = 10 \<or> afternoonPoints t = 0)
   \<and> afternoonPoints ''14:33'' = 10 \<and> afternoonPoints ''16:00'' = 0
   \<and> afternoonPoints ''13:59'' = 0"
proof -
  let ?R = "\<exists>a b c d. t = [a, b, CHR '':'', c, d]
           \<and> isDigit a \<and> isDigit b \<and> isDigit c \<and> isDigit d
           \<and> 10 * digitVal a + digitVal b < 24 \<and> 10 * digitVal c + digitVal d < 60
           \<and> 14 \<le> 10 * digitVal a + digitVal b \<and> 10 * digitVal a + digitVal b < 16"
  have iff: "afternoonPoints t = 10 \<longleftrightarrow> ?R"
  proof
    assume "afternoonPoints t = 10"
    then have "isBetween2And4PM t" by (simp add: afternoonPoints_def split: if_splits)
    then obtain h m where p: "parseClock t = Some (h, m)" and h: "14 \<le> h" "h < 16"
      by (auto simp: isBetween2And4PM_def split: option.splits)
    from parseClock_afternoon[OF p h(1)] h show ?R by auto
  next
    assume ?R
    then obtain a b c d where t: "t = [a, b, CHR '':'', c, d]"
      and dg: "isDigit a" "isDigit b" "isDigit c" "isDigit d"
      and rg: "10 * digitVal a + digitVal b < 24" "10 * digitVal c + digitVal d < 60"
      and h: "14 \<le> 10 * digitVal a + digitVal b" "10 * digitVal a + digitVal b < 16"
      by blast
    have "parseClock t = Some (10 * digitVal a + digitVal b, 10 * digitVal c + digitVal d)"
      unfolding t by (rule parseClock_two_digits[OF dg rg])
    with h show "afternoonPoints t = 10"
      by (simp add: afternoonPoints_def isBetween2And4PM_def)
  qed
  have two: "afternoonPoints t = 10 \<or> afternoonPoints t = 0"
    by (simp add: afternoonPoints_def)
  have ex: "afternoonPoints ''14:33'' = 10 \<and> afternoonPoints ''16:00'' = 0
      \<and> afternoonPoints ''13:59'' = 0"
    by code_simp
  from iff two ex calculatePoints_rules[of oor r] show ?thesis by blast
qed

subsection \<open>Determinism and the frame\<close>

text \<open>
  C8. \<open>calculatePoints\<close> is deterministic: two receipts with the same retailer, purchase
  date, purchase time, items and total get the same points (on one platform, that is for
  one and the same out-of-range conversion), whatever their identifiers.
\<close>

theorem calculatePoints_deterministic:
  assumes "Retailer r = Retailer r'" and "PurchaseDate r = PurchaseDate r'"
    and "PurchaseTime r = PurchaseTime r'" and "Items r = Items r'" and "Total r = Total r'"
  shows "calculatePoints oor r = calculatePoints oor r'"
  using assms by (simp add: calculatePoints_def)

theorem calculatePoints_deterministic_witness:
  "ID (classicReceipt ''a'') \<noteq> ID (classicReceipt ''b'')
   \<and> calculatePoints oorAmd64 (classicReceipt ''a'') = calculatePoints oorAmd64 (classicReceipt ''b'')"
  using calculatePoints_deterministic [of "classicReceipt ''a''" "classicReceipt ''b''" oorAmd64]
  by (simp add: classicReceipt_def)

text \<open>
  C9. Scoring has no side effect: \<open>calculatePoints\<close> takes the receipt by value and only
  assigns to its local \<open>points\<close>, and the handler \<open>GetPoints\<close> that calls it returns the
  receipt store as it got it, with the stored receipt's points (or not-found) as its
  response; asking again gives the same response and the same store.
\<close>

theorem scoring_leaves_store_unchanged:
  "snd (GetPoints oor store ident) = store
   \<and> fst (GetPoints oor store ident) =
       (case store ident of None \<Rightarrow> NotFound | Some r \<Rightarrow> PointsResponse (calculatePoints oor r))
   \<and> GetPoints oor (snd (GetPoints oor store ident)) ident = GetPoints oor store ident"
  by (simp add: GetPoints_def split: option.splits)

subsection \<open>Unparseable fields\<close>

lemma sum_list_itemPoints_zero:
  "\<forall>item \<in> set items. itemPoints oor item = 0 \<Longrightarrow> sum_list (map (itemPoints oor) items) = 0"
  by (induction items) auto

text \<open>
  C3 (as amended). \<open>calculatePoints\<close> has no error result: it returns the sum of the
  seven contributions. Rule 3 contributes zero whenever \<open>parsePrice\<close> reports an error for
  the total; rule 5 contributes zero for an item whose price is malformed (a syntax
  error, for which the parser returns 0), and so for a list of such items; rule 6
  contributes zero when the date does not parse and rule 7 when the time does not parse.
  Rule 2 parses nothing: it contributes 50 exactly when the total ends in ".00", whether
  or not the total is a number.
\<close>

theorem parse_failure_contributes_zero:
  "calculatePoints oor r =
     retailerPoints (Retailer r) + roundDollarPoints (Total r) + quarterPoints (Total r)
     + itemCountPoints (Items r) + descriptionPoints oor (Items r)
     + oddDayPoints (PurchaseDate r) + afternoonPoints (PurchaseTime r)
   \<and> roundDollarPoints (Total r) = (if \<exists>pre. Total r = pre @ ''.00'' then 50 else 0)
   \<and> (snd (parsePrice (Total r)) \<noteq> None \<longrightarrow> quarterPoints (Total r) = 0)
   \<and> (\<forall>item \<in> set (Items r).
         snd (parsePrice (Price item)) = Some ErrSyntax \<longrightarrow> itemPoints oor item = 0)
   \<and> ((\<forall>item \<in> set (Items r). snd (parsePrice (Price item)) = Some ErrSyntax)
         \<longrightarrow> descriptionPoints oor (Items r) = 0)
   \<and> (parseDate (PurchaseDate r) = None \<longrightarrow> oddDayPoints (PurchaseDate r) = 0)
   \<and> (parseClock (PurchaseTime r) = None \<longrightarrow> afternoonPoints (PurchaseTime r) = 0)"
proof -
  have r2: "roundDollarPoints (Total r) = (if \<exists>pre. Total r = pre @ ''.00'' then 50 else 0)"
    by (simp add: roundDollarPoints_def isRoundDollar_def HasSuffix_def suffix_def)
  have q: "snd (parsePrice (Total r)) \<noteq> None \<longrightarrow> quarterPoints (Total r) = 0"
    by (auto simp: quarterPoints_def isMultipleOfQuarter_def split: prod.splits option.splits)
  have i: "\<forall>item \<in> set (Items r).
      snd (parsePrice (Price item)) = Some ErrSyntax \<longrightarrow> itemPoints oor item = 0"
    by (simp add: itemPoints_syntax_zero)
  have "sum_list (map (itemPoints oor) (Items r)) = 0"
    if "\<forall>item \<in> set (Items r). snd (parsePrice (Price item)) = Some ErrSyntax"
    using that i by (intro sum_list_itemPoints_zero) blast
  then have s: "(\<forall>item \<in> set (Items r). snd (parsePrice (Price item)) = Some ErrSyntax)
      \<longrightarrow> descriptionPoints oor (Items r) = 0"
    by (simp add: descriptionPoints_sum)
  have d: "parseDate (PurchaseDate r) = None \<longrightarrow> oddDayPoints (PurchaseDate r) = 0"
    by (simp add: oddDayPoints_def isOddDay_def)
  have c: "parseClock (PurchaseTime r) = None \<longrightarrow> afternoonPoints (PurchaseTime r) = 0"
    by (simp add: afternoonPoints_def isBetween2And4PM_def)
  show ?thesis
    by (intro conjI) (rule calculatePoints_rules r2 q i s d c)+
qed

theorem parse_failure_contributes_zero_witness:
  "snd (parsePrice (Total malformedReceipt)) \<noteq> None
   \<and> quarterPoints (Total malformedReceipt) = 0
   \<and> roundDollarPoints (Total malformedReceipt) = 0
   \<and> Items malformedReceipt = [\<lparr>ShortDescription = ''abc'', Price = ''12.x''\<rparr>]
   \<and> snd (parsePrice ''12.x'') = Some ErrSyntax
   \<and> descriptionPoints oorAmd64 (Items malformedReceipt) = 0
   \<and> parseDate (PurchaseDate malformedReceipt) = None
   \<and> oddDayPoints (PurchaseDate malformedReceipt) = 0
   \<and> parseClock (PurchaseTime malformedReceipt) = None
   \<and> afternoonPoints (PurchaseTime malformedReceipt) = 0
   \<and> calculatePoints oorAmd64 malformedReceipt = 0"
proof -
  have t: "snd (parsePrice (Total malformedReceipt)) \<noteq> None"
    unfolding malformedReceipt_def by code_simp
  have it: "Items malformedReceipt = [\<lparr>ShortDescription = ''abc'', Price = ''12.x''\<rparr>]"
    by (simp add: malformedReceipt_def)
  have p: "snd (parsePrice ''12.x'') = Some ErrSyntax"
    by code_simp
  have d: "parseDate (PurchaseDate malformedReceipt) = None"
    unfolding malformedReceipt_def by code_simp
  have c: "parseClock (PurchaseTime malformedReceipt) = None"
    unfolding malformedReceipt_def by code_simp
  have rest: "retailerPoints (Retailer malformedReceipt) = 0
      \<and> roundDollarPoints (Total malformedReceipt) = 0
      \<and> itemCountPoints (Items malformedReceipt) = 0"
    unfolding malformedReceipt_def by code_simp
  from parse_failure_contributes_zero[of oorAmd64 malformedReceipt] t it p d c rest
  show ?thesis by simp
qed

text \<open>
  C3 as stated fails. The malformed total "abc.00" earns the 50 points of rule 2. The
  price "1e400", which \<open>parsePrice\<close> rejects as out of range, makes an item with the
  description "abc" contribute \<open>- 2 ^ 63\<close> on amd64, not 0.
\<close>

theorem unparseable_field_counterexample:
  "snd (parsePrice ''abc.00'') = Some ErrSyntax
   \<and> roundDollarPoints ''abc.00'' = 50
   \<and> parsePrice ''1e400'' = (PosInf, Some ErrRange)
   \<and> sint (itemPoints oorAmd64 \<lparr>ShortDescription = ''abc'', Price = ''1e400''\<rparr>) = - (2 ^ 63)"
  by code_simp

text \<open>
  A price that is well formed but beyond the largest double is not malformed:
  \<open>parsePrice\<close> reports \<open>ErrRange\<close> with an infinity, which rule 5 then converts.
\<close>

lemma parsePrice_range_infinite:
  assumes "snd (parsePrice p) = Some ErrRange"
  shows "\<not> isFinite (fst (parsePrice p))"
  using assms
  by (auto simp: parsePrice_def ParseFloat_def Let_def split: option.splits prod.splits if_splits)

subsection \<open>Rule 3: quarter multiples\<close>

text \<open>
  C5 (as amended). Rule 3 is one of the seven summands of the result; it contributes
  exactly 25 if and only if \<open>parsePrice\<close> accepts the total and the double it returns, the
  one nearest to the decimal value of the total, is finite and an exact multiple of 0.25,
  and 0 otherwise, in particular when the total does not parse. Every accepted total whose
  decimal value itself is an exact multiple of 0.25 earns the 25. The total "9.00" earns
  50 + 25 = 75 from rules 2 and 3; "35.35" earns 0 from both.
\<close>

theorem quarter_multiple:
  "calculatePoints oor r =
     retailerPoints (Retailer r) + roundDollarPoints (Total r) + quarterPoints (Total r)
     + itemCountPoints (Items r) + descriptionPoints oor (Items r)
     + oddDayPoints (PurchaseDate r) + afternoonPoints (PurchaseTime r)
   \<and> (quarterPoints t = 25 \<longleftrightarrow>
        (\<exists>v. parsePrice t = (v, None) \<and> isFinite v \<and> (\<exists>k::int. valof v = of_int k / 4)))
   \<and> (quarterPoints t = 25 \<or> quarterPoints t = 0)
   \<and> (snd (parsePrice t) \<noteq> None \<longrightarrow> quarterPoints t = 0)
   \<and> (exactLiteral t = Some (neg, n, d) \<and> d dvd 4 * n \<and> snd (parsePrice t) = None
        \<longrightarrow> quarterPoints t = 25)
   \<and> roundDollarPoints ''9.00'' + quarterPoints ''9.00'' = 75
   \<and> roundDollarPoints ''35.35'' = 0 \<and> quarterPoints ''35.35'' = 0"
proof -
  have iff: "quarterPoints t = 25 \<longleftrightarrow>
      (\<exists>v. parsePrice t = (v, None) \<and> isFinite v \<and> (\<exists>k::int. valof v = of_int k / 4))"
    using isMultipleOfQuarter_iff[of t] by (simp add: quarterPoints_def)
  have two: "quarterPoints t = 25 \<or> quarterPoints t = 0"
    by (simp add: quarterPoints_def)
  have err: "snd (parsePrice t) \<noteq> None \<longrightarrow> quarterPoints t = 0"
    by (auto simp: quarterPoints_def isMultipleOfQuarter_def split: prod.splits option.splits)
  have exact: "exactLiteral t = Some (neg, n, d) \<and> d dvd 4 * n \<and> snd (parsePrice t) = None
      \<longrightarrow> quarterPoints t = 25"
    using exact_quarter_multiple[of t neg n d] by (simp add: quarterPoints_def)
  have ex: "roundDollarPoints ''9.00'' + quarterPoints ''9.00'' = 75
      \<and> roundDollarPoints ''35.35'' = 0 \<and> quarterPoints ''35.35'' = 0"
    by code_simp
  from ex have e1: "roundDollarPoints ''9.00'' + quarterPoints ''9.00'' = 75"
    and e2: "roundDollarPoints ''35.35'' = 0" and e3: "quarterPoints ''35.35'' = 0"
    by simp_all
  show ?thesis
    by (intro conjI) (rule calculatePoints_rules iff two err exact e1 e2 e3)+
qed

theorem quarter_multiple_witness:
  "snd (parsePrice ''12.x'') \<noteq> None \<and> quarterPoints ''12.x'' = 0
   \<and> exactLiteral ''9.00'' = Some (False, 900, 100) \<and> (100 :: int) dvd 4 * 900
   \<and> snd (parsePrice ''9.00'') = None
   \<and> (\<exists>v. parsePrice ''9.00'' = (v, None) \<and> isFinite v \<and> valof v = 9)
   \<and> quarterPoints ''9.00'' = 25"
proof -
  have e: "snd (parsePrice ''12.x'') \<noteq> None" by code_simp
  have l: "exactLiteral ''9.00'' = Some (False, 900, 100)" by code_simp
  have dv: "(100 :: int) dvd 4 * 900" by simp
  have p: "parsePrice ''9.00'' = (Finite 5066549580791808 (- 49), None)" by code_simp
  have v: "valof (Finite 5066549580791808 (- 49)) = 9" by (simp add: power_int_def power_one_over)
  from p have ok: "snd (parsePrice ''9.00'') = None" by simp
  from quarter_multiple[of oorAmd64 malformedReceipt "''9.00''" False 900 100] l dv ok
  have q: "quarterPoints ''9.00'' = 25" by blast
  from quarter_multiple[of oorAmd64 malformedReceipt "''12.x''"] e
  have z: "quarterPoints ''12.x'' = 0" by blast
  from e z l dv ok p v q show ?thesis by simp
qed

text \<open>
  C5 as stated fails. The decimal value of "0.2500000000000000000001" is not a multiple of
  0.25, yet the text is accepted, rounds to the double 0.25, and earns the 25 points.
\<close>

theorem quarter_multiple_counterexample:
  "exactLiteral ''0.2500000000000000000001'' =
     Some (False, 2500000000000000000001, 10000000000000000000000)
   \<and> \<not> (10000000000000000000000 :: int) dvd 4 * 2500000000000000000001
   \<and> snd (parsePrice ''0.2500000000000000000001'') = None
   \<and> quarterPoints ''0.2500000000000000000001'' = 25"
  by code_simp

text \<open>
  C10. Rule 3 has no positivity requirement: a total that parses to a finite value that is
  zero or negative and an exact multiple of 0.25 earns the 25 points, as "0", "0.00" and
  "-0.25" do.
\<close>

theorem nonpositive_quarter_multiple:
  "(parsePrice t = (v, None) \<and> isFinite v \<and> valof v \<le> 0 \<and> (\<exists>k::int. valof v = of_int k / 4)
      \<longrightarrow> quarterPoints t = 25)
   \<and> quarterPoints ''0'' = 25 \<and> quarterPoints ''0.00'' = 25 \<and> quarterPoints ''-0.25'' = 25"
proof -
  have "quarterPoints t = 25"
    if "parsePrice t = (v, None)" "isFinite v" "\<exists>k::int. valof v = of_int k / 4"
    using that isMultipleOfQuarter_iff[of t] by (simp add: quarterPoints_def)
  moreover have "quarterPoints ''0'' = 25 \<and> quarterPoints ''0.00'' = 25
      \<and> quarterPoints ''-0.25'' = 25"
    by code_simp
  ultimately show ?thesis by blast
qed

theorem nonpositive_quarter_multiple_witness:
  "parsePrice ''-0.25'' = (Finite (- 4503599627370496) (- 54), None)
   \<and> isFinite (Finite (- 4503599627370496) (- 54))
   \<and> valof (Finite (- 4503599627370496) (- 54)) = - 1 / 4
   \<and> valof (Finite (- 4503599627370496) (- 54)) \<le> 0
   \<and> quarterPoints ''-0.25'' = 25"
proof -
  have p: "parsePrice ''-0.25'' = (Finite (- 4503599627370496) (- 54), None)" by code_simp
  have v: "valof (Finite (- 4503599627370496) (- 54)) = - 1 / 4" by (simp add: power_int_def power_one_over)
  have "valof (Finite (- 4503599627370496) (- 54)) = of_int (- 1) / 4" unfolding v by simp
  then have k: "\<exists>k::int. valof (Finite (- 4503599627370496) (- 54)) = of_int k / 4" by blast
  have le: "valof (Finite (- 4503599627370496) (- 54)) \<le> 0" unfolding v by simp
  from nonpositive_quarter_multiple[of "''-0.25''" "Finite (- 4503599627370496) (- 54)"] p k le
  have "quarterPoints ''-0.25'' = 25" by simp
  with p v le show ?thesis by simp
qed

subsection \<open>Rule 5: description length\<close>

text \<open>
  C6 (as amended). Rule 5 is one of the seven summands of the result, and is itself the
  sum over the items of what each item adds. An item whose trimmed description has a
  length that is not a multiple of 3 adds nothing; one whose trimmed length is a multiple
  of 3 (0 included) adds \<open>int64(math.Ceil(price * 0.2))\<close> for the parsed price. That is the
  ceiling of the double product whenever the parsed price is finite and below \<open>2 ^ 62\<close> in
  magnitude, and more generally whenever that ceiling fits in \<open>int64\<close>. The item "Emils
  Cheese Pizza" at "12.25" adds 3, a blank description at "3.00" adds 1, "Mountain Dew
  12PK" (17 bytes) adds 0; at "5.00" the descriptions " ab" and "ab " add 0, "abc" and
  " abc " add 1.
\<close>

theorem description_length_rule:
  "calculatePoints oor r =
     retailerPoints (Retailer r) + roundDollarPoints (Total r) + quarterPoints (Total r)
     + itemCountPoints (Items r) + descriptionPoints oor (Items r)
     + oddDayPoints (PurchaseDate r) + afternoonPoints (PurchaseTime r)
   \<and> descriptionPoints oor items = sum_list (map (itemPoints oor) items)
   \<and> (length (TrimSpace (ShortDescription item)) mod 3 \<noteq> 0 \<longrightarrow> itemPoints oor item = 0)
   \<and> (length (TrimSpace (ShortDescription item)) mod 3 = 0 \<longrightarrow>
        itemPoints oor item = toInt64 oor (Ceil (mul64 (fst (parsePrice (Price item))) const_0_2)))
   \<and> (length (TrimSpace (ShortDescription item)) mod 3 = 0
        \<and> isFinite (fst (parsePrice (Price item)))
        \<and> \<bar>valof (fst (parsePrice (Price item)))\<bar> < 2 ^ 62 \<longrightarrow>
        sint (itemPoints oor item) = \<lceil>valof (mul64 (fst (parsePrice (Price item))) const_0_2)\<rceil>)
   \<and> (length (TrimSpace (ShortDescription item)) mod 3 = 0
        \<and> inInt64 (Ceil (mul64 (fst (parsePrice (Price item))) const_0_2)) \<longrightarrow>
        sint (itemPoints oor item) = \<lceil>valof (mul64 (fst (parsePrice (Price item))) const_0_2)\<rceil>)
   \<and> itemPoints oor \<lparr>ShortDescription = ''Emils Cheese Pizza'', Price = ''12.25''\<rparr> = 3
   \<and> length (TrimSpace ''   '') = 0
   \<and> itemPoints oor \<lparr>ShortDescription = ''   '', Price = ''3.00''\<rparr> = 1
   \<and> itemPoints oor \<lparr>ShortDescription = ''Mountain Dew 12PK'', Price = ''6.49''\<rparr> = 0
   \<and> itemPoints oor \<lparr>ShortDescription = '' ab'', Price = ''5.00''\<rparr> = 0
   \<and> itemPoints oor \<lparr>ShortDescription = ''ab '', Price = ''5.00''\<rparr> = 0
   \<and> itemPoints oor \<lparr>ShortDescription = ''abc'', Price = ''5.00''\<rparr> = 1
   \<and> itemPoints oor \<lparr>ShortDescription = '' abc '', Price = ''5.00''\<rparr> = 1"
proof -
  let ?p = "fst (parsePrice (Price item))"
  let ?x = "mul64 ?p const_0_2"
  have a: "length (TrimSpace (ShortDescription item)) mod 3 \<noteq> 0 \<longrightarrow> itemPoints oor item = 0"
    by (simp add: itemPoints_def itemStep_def)
  have b: "length (TrimSpace (ShortDescription item)) mod 3 = 0 \<longrightarrow>
      itemPoints oor item = toInt64 oor (Ceil ?x)"
    by (simp add: itemPoints_def itemStep_def)
  have c: "sint (itemPoints oor item) = \<lceil>valof ?x\<rceil>"
    if len: "length (TrimSpace (ShortDescription item)) mod 3 = 0" and fit: "inInt64 (Ceil ?x)"
  proof -
    from fit have "isFinite (Ceil ?x)" by (simp add: inInt64_def)
    then obtain m e where x: "?x = Finite m e" by (cases ?x) simp_all
    from len have "sint (itemPoints oor item) = sint (toInt64 oor (Ceil ?x))"
      by (simp add: itemPoints_def itemStep_def)
    also have "\<dots> = truncInt (Ceil ?x)" by (rule sint_toInt64[OF fit])
    also have "\<dots> = \<lceil>valof ?x\<rceil>" unfolding x by (rule truncInt_Ceil)
    finally show ?thesis .
  qed
  have fits: "inInt64 (Ceil ?x)" if fin: "isFinite ?p" and bd: "\<bar>valof ?p\<bar> < 2 ^ 62"
  proof -
    from fin obtain m e where p: "?p = Finite m e" by (cases ?p) simp_all
    from bd show ?thesis unfolding p by (rule mul_const_0_2_inInt64)
  qed
  from c have c': "length (TrimSpace (ShortDescription item)) mod 3 = 0 \<and> inInt64 (Ceil ?x) \<longrightarrow>
      sint (itemPoints oor item) = \<lceil>valof ?x\<rceil>"
    by simp
  from c fits have c'': "length (TrimSpace (ShortDescription item)) mod 3 = 0
      \<and> isFinite ?p \<and> \<bar>valof ?p\<bar> < 2 ^ 62 \<longrightarrow>
      sint (itemPoints oor item) = \<lceil>valof ?x\<rceil>"
    by simp
  have ex: "itemPoints oor \<lparr>ShortDescription = ''Emils Cheese Pizza'', Price = ''12.25''\<rparr> = 3
      \<and> length (TrimSpace ''   '') = 0
      \<and> itemPoints oor \<lparr>ShortDescription = ''   '', Price = ''3.00''\<rparr> = 1
      \<and> itemPoints oor \<lparr>ShortDescription = ''Mountain Dew 12PK'', Price = ''6.49''\<rparr> = 0
      \<and> itemPoints oor \<lparr>ShortDescription = '' ab'', Price = ''5.00''\<rparr> = 0
      \<and> itemPoints oor \<lparr>ShortDescription = ''ab '', Price = ''5.00''\<rparr> = 0
      \<and> itemPoints oor \<lparr>ShortDescription = ''abc'', Price = ''5.00''\<rparr> = 1
      \<and> itemPoints oor \<lparr>ShortDescription = '' abc '', Price = ''5.00''\<rparr> = 1"
    by code_simp
  from ex have e1: "itemPoints oor \<lparr>ShortDescription = ''Emils Cheese Pizza'', Price = ''12.25''\<rparr> = 3"
    and e2: "length (TrimSpace ''   '') = 0"
    and e3: "itemPoints oor \<lparr>ShortDescription = ''   '', Price = ''3.00''\<rparr> = 1"
    and e4: "itemPoints oor \<lparr>ShortDescription = ''Mountain Dew 12PK'', Price = ''6.49''\<rparr> = 0"
    and e5: "itemPoints oor \<lparr>ShortDescription = '' ab'', Price = ''5.00''\<rparr> = 0"
    and e6: "itemPoints oor \<lparr>ShortDescription = ''ab '', Price = ''5.00''\<rparr> = 0"
    and e7: "itemPoints oor \<lparr>ShortDescription = ''abc'', Price = ''5.00''\<rparr> = 1"
    and e8: "itemPoints oor \<lparr>ShortDescription = '' abc '', Price = ''5.00''\<rparr> = 1"
    by simp_all
  show ?thesis
    by (intro conjI)
      (rule calculatePoints_rules descriptionPoints_sum a b c' c'' e1 e2 e3 e4 e5 e6 e7 e8)+
qed

theorem description_length_rule_witness:
  "length (TrimSpace ''Emils Cheese Pizza'') mod 3 = 0
   \<and> isFinite (fst (parsePrice ''12.25''))
   \<and> \<bar>valof (fst (parsePrice ''12.25''))\<bar> < 2 ^ 62
   \<and> inInt64 (Ceil (mul64 (fst (parsePrice ''12.25'')) const_0_2))
   \<and> \<lceil>valof (mul64 (fst (parsePrice ''12.25'')) const_0_2)\<rceil> = 3
   \<and> sint (itemPoints oorAmd64 \<lparr>ShortDescription = ''Emils Cheese Pizza'', Price = ''12.25''\<rparr>) = 3
   \<and> length (TrimSpace ''Mountain Dew 12PK'') mod 3 \<noteq> 0
   \<and> itemPoints oorAmd64 \<lparr>ShortDescription = ''Mountain Dew 12PK'', Price = ''6.49''\<rparr> = 0"
proof -
  let ?pizza = "\<lparr>ShortDescription = ''Emils Cheese Pizza'', Price = ''12.25''\<rparr>"
  let ?dew = "\<lparr>ShortDescription = ''Mountain Dew 12PK'', Price = ''6.49''\<rparr>"
  have l: "length (TrimSpace ''Emils Cheese Pizza'') mod 3 = 0" by code_simp
  have pp: "fst (parsePrice ''12.25'') = Finite 6896136929411072 (- 49)" by code_simp
  have fin: "isFinite (fst (parsePrice ''12.25''))" unfolding pp by simp
  have bd: "\<bar>valof (fst (parsePrice ''12.25''))\<bar> < 2 ^ 62"
    unfolding pp by (simp add: power_int_def power_one_over)
  have f: "inInt64 (Ceil (mul64 (fst (parsePrice ''12.25'')) const_0_2))" by code_simp
  have n: "length (TrimSpace ''Mountain Dew 12PK'') mod 3 \<noteq> 0" by code_simp
  have l': "length (TrimSpace (ShortDescription ?pizza)) mod 3 = 0" using l by simp
  have fin': "isFinite (fst (parsePrice (Price ?pizza)))" using fin by simp
  have bd': "\<bar>valof (fst (parsePrice (Price ?pizza)))\<bar> < 2 ^ 62" using bd by simp
  have n': "length (TrimSpace (ShortDescription ?dew)) mod 3 \<noteq> 0" using n by simp
  from description_length_rule[of oorAmd64 malformedReceipt "[]" ?pizza] l' fin' bd'
  have "sint (itemPoints oorAmd64 ?pizza) =
      \<lceil>valof (mul64 (fst (parsePrice (Price ?pizza))) const_0_2)\<rceil>"
    by blast
  then have s: "sint (itemPoints oorAmd64 ?pizza) =
      \<lceil>valof (mul64 (fst (parsePrice ''12.25'')) const_0_2)\<rceil>"
    by simp
  from description_length_rule[of oorAmd64 malformedReceipt "[]" ?pizza]
  have p3: "itemPoints oorAmd64 ?pizza = 3" by blast
  from description_length_rule[of oorAmd64 malformedReceipt "[]" ?dew] n'
  have z: "itemPoints oorAmd64 ?dew = 0" by blast
  from s p3 have "\<lceil>valof (mul64 (fst (parsePrice ''12.25'')) const_0_2)\<rceil> = 3" by simp
  with l fin bd f n p3 z show ?thesis by simp
qed

text \<open>
  C6 as stated fails. The price "1e20" parses, and the ceiling of its product with 0.2 is
  \<open>2 * 10 ^ 19\<close>, which no \<open>int64\<close> holds: an item with the description "abc" adds
  \<open>- 2 ^ 63\<close> on amd64, and on no platform \<open>2 * 10 ^ 19\<close>.
\<close>

theorem description_length_counterexample:
  "length (TrimSpace ''abc'') mod 3 = 0
   \<and> snd (parsePrice ''1e20'') = None
   \<and> \<lceil>valof (mul64 (fst (parsePrice ''1e20'')) const_0_2)\<rceil> = 20000000000000000000
   \<and> sint (itemPoints oorAmd64 \<lparr>ShortDescription = ''abc'', Price = ''1e20''\<rparr>) = - (2 ^ 63)
   \<and> (\<forall>oor. sint (itemPoints oor \<lparr>ShortDescription = ''abc'', Price = ''1e20''\<rparr>)
         \<noteq> 20000000000000000000)"
proof -
  have l: "length (TrimSpace ''abc'') mod 3 = 0" by code_simp
  have e: "snd (parsePrice ''1e20'') = None" by code_simp
  have x: "mul64 (fst (parsePrice ''1e20'')) const_0_2 = Finite 4882812500000000 12"
    by code_simp
  have "truncInt (Ceil (Finite 4882812500000000 12)) = 20000000000000000000"
    by code_simp
  then have c: "\<lceil>valof (mul64 (fst (parsePrice ''1e20'')) const_0_2)\<rceil> = 20000000000000000000"
    unfolding x truncInt_Ceil .
  have a: "sint (itemPoints oorAmd64 \<lparr>ShortDescription = ''abc'', Price = ''1e20''\<rparr>) = - (2 ^ 63)"
    by code_simp
  have "sint w < 20000000000000000000" for w :: int64
    using sint_lt[of w] by simp
  then have u: "\<forall>oor. sint (itemPoints oor \<lparr>ShortDescription = ''abc'', Price = ''1e20''\<rparr>)
      \<noteq> 20000000000000000000"
    by (metis less_irrefl)
  from l e c a u show ?thesis by blast
qed

subsection \<open>The sign of the result\<close>

lemma item_contribution_nonneg:
  assumes "nonNegative (fst (parsePrice (Price item)))"
  shows "isFinite (mul64 (fst (parsePrice (Price item))) const_0_2)"
    and "0 \<le> truncInt (Ceil (mul64 (fst (parsePrice (Price item))) const_0_2))"
proof -
  from assms obtain m e where p: "fst (parsePrice (Price item)) = Finite m e" and m: "0 \<le> m"
    by (cases "fst (parsePrice (Price item))") simp_all
  from p have "\<bar>valof (Finite m e)\<bar> < 2 powi 1024"
    by (intro ParseFloat_value_bound) (simp add: parsePrice_def)
  from mul_const_0_2_finite[OF m this] obtain m' s
    where x: "mul64 (Finite m e) const_0_2 = Finite m' s" and m': "0 \<le> m'"
    by blast
  show "isFinite (mul64 (fst (parsePrice (Price item))) const_0_2)"
    by (simp add: p x)
  have "0 \<le> valof (Finite m' s)" using m' by simp
  then have "0 \<le> \<lceil>valof (Finite m' s)\<rceil>" by simp
  then show "0 \<le> truncInt (Ceil (mul64 (fst (parsePrice (Price item))) const_0_2))"
    by (simp only: p x truncInt_Ceil)
qed

lemma itemExact_nonneg:
  assumes "length (TrimSpace (ShortDescription item)) mod 3 = 0
    \<longrightarrow> nonNegative (fst (parsePrice (Price item)))"
  shows "0 \<le> itemExact item"
  using assms item_contribution_nonneg(2)[of item] by (simp add: itemExact_def)

lemma itemPoints_exact:
  assumes ok: "length (TrimSpace (ShortDescription item)) mod 3 = 0
    \<longrightarrow> nonNegative (fst (parsePrice (Price item)))"
    and fit: "itemExact item < 2 ^ 63"
  shows "itemPoints oor item = word_of_int (itemExact item)"
proof (cases "length (TrimSpace (ShortDescription item)) mod 3 = 0")
  case True
  let ?x = "mul64 (fst (parsePrice (Price item))) const_0_2"
  from True ok have nn: "nonNegative (fst (parsePrice (Price item)))" by simp
  from item_contribution_nonneg[OF nn] obtain m e where x: "?x = Finite m e"
    and t0: "0 \<le> truncInt (Ceil ?x)"
    by (cases ?x) simp_all
  from fit True have "truncInt (Ceil ?x) < 2 ^ 63" by (simp add: itemExact_def)
  with t0 x have "inInt64 (Ceil ?x)" by (simp add: inInt64_def)
  then show ?thesis using True by (simp add: itemPoints_def itemStep_def toInt64_def itemExact_def)
next
  case False
  then show ?thesis by (simp add: itemPoints_def itemStep_def itemExact_def)
qed

lemma sum_list_nonneg_member:
  fixes f :: "'a \<Rightarrow> int"
  assumes "\<forall>x \<in> set xs. 0 \<le> f x"
  shows "0 \<le> sum_list (map f xs)" and "\<forall>y \<in> set xs. f y \<le> sum_list (map f xs)"
  using assms by (induction xs) (auto simp: add_increasing add_increasing2)

lemma descriptionPoints_exact:
  assumes "\<forall>item \<in> set items. itemPoints oor item = word_of_int (itemExact item)"
  shows "descriptionPoints oor items = word_of_int (sum_list (map itemExact items))"
  using assms unfolding descriptionPoints_sum by (induction items) simp_all


text \<open>
  C2 (as amended). The result is not non-negative for every receipt: it is whenever each
  item that rule 5 scores (trimmed description length a multiple of 3) has a price that
  is malformed or parses to a finite double that is zero or positive, and the seven
  contributions add up to less than \<open>2 ^ 63\<close>. Then \<open>calculatePoints\<close> returns exactly
  that sum, read as a signed integer, and it is at least 0.
\<close>

theorem nonnegative_points:
  assumes prices: "\<forall>item \<in> set (Items r).
      length (TrimSpace (ShortDescription item)) mod 3 = 0
        \<longrightarrow> nonNegative (fst (parsePrice (Price item)))"
    and bound: "exactPoints r < 2 ^ 63"
  shows "sint (calculatePoints oor r) = exactPoints r \<and> 0 \<le> sint (calculatePoints oor r)"
proof -
  have nn: "\<forall>item \<in> set (Items r). 0 \<le> itemExact item"
    using prices by (simp add: itemExact_nonneg)
  note s = sum_list_nonneg_member[OF nn]
  have rest: "sum_list (map itemExact (Items r)) \<le> exactPoints r"
    by (simp add: exactPoints_def)
  have e0: "0 \<le> exactPoints r"
    using s(1) by (simp add: exactPoints_def)
  have "\<forall>item \<in> set (Items r). itemExact item < 2 ^ 63"
    using s(2) rest bound by fastforce
  with prices have "\<forall>item \<in> set (Items r). itemPoints oor item = word_of_int (itemExact item)"
    by (simp add: itemPoints_exact)
  from descriptionPoints_exact[OF this]
  have "calculatePoints oor r = word_of_int (exactPoints r)"
    by (simp add: calculatePoints_rules exactPoints_def retailerPoints_def roundDollarPoints_def
        quarterPoints_def itemCountPoints_def oddDayPoints_def afternoonPoints_def)
  moreover have "signed_take_bit 63 (exactPoints r) = exactPoints r"
    using e0 bound by (intro signed_take_bit_int_eq_self) simp_all
  ultimately have "sint (calculatePoints oor r) = exactPoints r"
    by (simp add: sint_sbintrunc')
  with e0 show ?thesis by simp
qed

theorem nonnegative_points_witness:
  "list_all (\<lambda>item. nonNegative (fst (parsePrice (Price item)))) (Items (classicReceipt ''a''))
   \<and> exactPoints (classicReceipt ''a'') = 28
   \<and> sint (calculatePoints oorAmd64 (classicReceipt ''a'')) = 28"
proof -
  have la: "list_all (\<lambda>item. nonNegative (fst (parsePrice (Price item))))
      (Items (classicReceipt ''a''))"
    unfolding classicReceipt_def by code_simp
  then have h1: "\<forall>item \<in> set (Items (classicReceipt ''a'')).
      length (TrimSpace (ShortDescription item)) mod 3 = 0
        \<longrightarrow> nonNegative (fst (parsePrice (Price item)))"
    by (simp add: list_all_iff)
  have e: "exactPoints (classicReceipt ''a'') = 28"
    unfolding classicReceipt_def by code_simp
  then have h2: "exactPoints (classicReceipt ''a'') < 2 ^ 63" by simp
  from nonnegative_points[OF h1 h2, of oorAmd64] la e show ?thesis by simp
qed

text \<open>
  C2 as stated fails: a receipt whose only item is a refund of "-5.00" with the
  description "abc" gets \<open>-1\<close> points (the conversion of an out-of-range value plays no
  part in it).
\<close>

theorem negative_points_counterexample:
  "sint (calculatePoints oorAmd64 refundReceipt) = - 1"
  unfolding refundReceipt_def by code_simp

end
